theory Spec2Isabelle
  imports Complex_Main "HOL-Library.Multiset" "HOL-Library.Code_Target_Nat"
begin

section \<open>JavaScript strings\<close>

text \<open>
  A JavaScript string is a sequence of UTF-16 code units, and \<open>length\<close>, \<open>charAt\<close>,
  \<open>slice\<close> and \<open>replace\<close> count code units. A code unit is modelled as a natural number
  (every value below 65536 is one), so that the results of \<open>toUpperCase\<close>, which leave
  Latin-1, are strings of the model too. \<open>js\<close> reads an ASCII literal as such a string.
\<close>

type_synonym code_unit = nat
type_synonym js_string = "code_unit list"

definition js :: "string \<Rightarrow> js_string" where
  "js s = map of_char s"

definition charAt :: "js_string \<Rightarrow> nat \<Rightarrow> js_string" where
  \<comment> \<open>\<open>s.charAt(i)\<close>: the code unit at \<open>i\<close> as a string, the empty string out of range.\<close>
  "charAt s i = (if i < length s then [s ! i] else [])"

definition slice :: "js_string \<Rightarrow> nat \<Rightarrow> js_string" where
  \<comment> \<open>\<open>s.slice(b)\<close> for a start \<open>b \<ge> 0\<close>: everything from index \<open>b\<close> on.\<close>
  "slice s b = drop b s"

fun replace :: "js_string \<Rightarrow> js_string \<Rightarrow> js_string \<Rightarrow> js_string" where
  \<comment> \<open>\<open>s.replace(pat, rep)\<close> with a string pattern: only the first occurrence of \<open>pat\<close>
      is replaced. (\<open>rep\<close> is taken literally: the one replacement the program uses,
      a space, has no \<open>$\<close> pattern.)\<close>
  "replace pat rep [] = (if pat = [] then rep else [])"
| "replace pat rep (c # cs) =
     (if take (length pat) (c # cs) = pat then rep @ drop (length pat) (c # cs)
      else c # replace pat rep cs)"

text \<open>
  \<open>toUpperCase\<close> follows the Unicode case mapping of the JavaScript runtime, which is not
  part of the repository. Its ASCII part is written out; for the code units from 128 on
  the mapping is the parameter \<open>tbl\<close>, which gives the upper-case string of one code unit.
  The program calls \<open>toUpperCase\<close> on the result of \<open>charAt(0)\<close> only, a string of at most
  one code unit, where mapping unit by unit is what the runtime does.
\<close>

definition toUpperCase_unit :: "(code_unit \<Rightarrow> js_string) \<Rightarrow> code_unit \<Rightarrow> js_string" where
  "toUpperCase_unit tbl c =
     (if 97 \<le> c \<and> c \<le> 122 then [c - 32] else if c < 128 then [c] else tbl c)"

definition toUpperCase :: "(code_unit \<Rightarrow> js_string) \<Rightarrow> js_string \<Rightarrow> js_string" where
  "toUpperCase tbl s = concat (map (toUpperCase_unit tbl) s)"

definition unicode_latin1 :: "code_unit \<Rightarrow> js_string" where
  \<comment> \<open>The Unicode upper-case mapping (UnicodeData and SpecialCasing) on U+0080 .. U+00FF:
      the micro sign goes to U+039C, sharp s to \<open>SS\<close>, y with diaeresis to U+0178, the
      other small letters 32 down. Code units from U+0100 on are left as they are here;
      the table is only ever used below U+0100.\<close>
  "unicode_latin1 c =
     (if c = 181 then [924]
      else if c = 223 then [83, 83]
      else if c = 255 then [376]
      else if 224 \<le> c \<and> c \<le> 254 \<and> c \<noteq> 247 then [c - 32]
      else [c])"

section \<open>Math.random() and the product of doubles\<close>

text \<open>
  \<open>Math.random()\<close> returns a double in [0, 1). Every such double is
  \<open>mantissa / 2 ^ binary_places\<close> for a mantissa below \<open>2 ^ 53\<close> and at most 1074 binary
  places (the subnormal ones have 1074), and it is modelled as this pair. The program
  multiplies it with a whole number \<open>n\<close> (\<open>TOTAL_POKEMON\<close>, \<open>i + 1\<close>), which is a double
  itself up to \<open>2 ^ 53\<close>, and the runtime rounds the exact product
  \<open>mantissa * n / 2 ^ binary_places\<close> to the nearest double, a tie to the even one: when
  \<open>mantissa * n\<close> has more than 53 binary digits, the digits beyond the 53rd are rounded
  away.
\<close>

record random_number =
  mantissa :: nat
  binary_places :: nat

definition value_of :: "random_number \<Rightarrow> rat" where
  "value_of r = of_nat (mantissa r) / 2 ^ binary_places r"

definition random_double :: "random_number \<Rightarrow> bool" where
  \<comment> \<open>a double in [0, 1): what \<open>Math.random()\<close> may return\<close>
  "random_double r \<longleftrightarrow>
     mantissa r < 2 ^ 53 \<and> binary_places r \<le> 1074 \<and> mantissa r < 2 ^ binary_places r"

fun bit_length :: "nat \<Rightarrow> nat" where
  \<comment> \<open>the number of binary digits\<close>
  "bit_length n = (if n = 0 then 0 else Suc (bit_length (n div 2)))"

declare bit_length.simps [simp del]

definition round_half_even :: "nat \<Rightarrow> nat \<Rightarrow> nat" where
  \<comment> \<open>\<open>p\<close> rounded to the nearest multiple of \<open>2 ^ s\<close>, a tie to the even multiple\<close>
  "round_half_even p s =
     (let q = p div 2 ^ s; rest = p mod 2 ^ s
      in if 2 ^ s < 2 * rest \<or> (2 * rest = 2 ^ s \<and> odd q) then (q + 1) * 2 ^ s else q * 2 ^ s)"

definition double_product :: "random_number \<Rightarrow> nat \<Rightarrow> rat" where
  \<comment> \<open>\<open>r * n\<close> as the runtime computes it, for a whole number \<open>n\<close> up to \<open>2 ^ 53\<close>\<close>
  "double_product r n =
     (let p = mantissa r * n; s = bit_length p - 53
      in of_nat (round_half_even p s) / 2 ^ binary_places r)"

definition random_zero :: random_number where
  "random_zero = \<lparr> mantissa = 0, binary_places = 0 \<rparr>"

definition random_for :: "nat \<Rightarrow> nat \<Rightarrow> random_number" where
  \<comment> \<open>A value of \<open>Math.random()\<close> on which the iteration of index \<open>i\<close> of the shuffle draws
      the index \<open>j\<close>: the least multiple of \<open>1 / 2 ^ t\<close> from \<open>j / (i + 1)\<close> on, with two more
      binary places \<open>t\<close> than \<open>i + 1\<close> has digits.\<close>
  "random_for i j =
     (let t = bit_length (i + 1) + 1
      in \<lparr> mantissa = (j * 2 ^ t + i) div (i + 1), binary_places = t \<rparr>)"

section \<open>The Pokemon service (src/js/pokemon.js)\<close>

definition TOTAL_POKEMON :: int where
  "TOTAL_POKEMON = 1008"

definition capitalizeFirstLetter :: "(code_unit \<Rightarrow> js_string) \<Rightarrow> js_string \<Rightarrow> js_string" where
  \<comment> \<open>\<open>string.charAt(0).toUpperCase() + string.replace('-', ' ').slice(1)\<close>\<close>
  "capitalizeFirstLetter tbl string =
     toUpperCase tbl (charAt string 0) @ slice (replace (js ''-'') (js '' '') string) 1"

text \<open>
  The record of the remote catalog, with the fields \<open>processPokemonData\<close> reads:
  \<open>sprites.other['official-artwork'].front_default\<close> and \<open>sprites.front_default\<close> may be
  null; \<open>types\<close> and \<open>abilities\<close> are given by their names, \<open>stats\<close> by the pairs of
  \<open>stat.name\<close> and \<open>base_stat\<close>.
\<close>

record raw_pokemon =
  raw_id :: int
  raw_name :: js_string
  official_artwork :: "js_string option"
  front_default :: "js_string option"
  raw_types :: "js_string list"
  raw_height :: int
  raw_weight :: int
  raw_abilities :: "js_string list"
  raw_stats :: "(js_string \<times> int) list"
  species_url :: js_string

record pokemon_stats =
  hp :: int
  attack :: int
  defense :: int
  speed :: int

text \<open>
  The processed Pokemon. \<open>pid\<close> is the field \<open>id\<close>. Height and weight are the raw integers
  divided by 10, kept as exact rationals (no claim reads them).
\<close>

record pokemon =
  pid :: int
  name :: js_string
  sprite :: "js_string option"
  types :: "js_string list"
  height :: rat
  weight :: rat
  abilities :: "js_string list"
  stats :: pokemon_stats
  speciesUrl :: js_string

definition findStat :: "(js_string \<times> int) list \<Rightarrow> js_string \<Rightarrow> int" where
  "findStat sts statName =
     (case find (\<lambda>s. fst s = statName) sts of Some stat \<Rightarrow> snd stat | None \<Rightarrow> 0)"

definition or_else :: "js_string option \<Rightarrow> js_string option \<Rightarrow> js_string option" where
  \<comment> \<open>\<open>a || b\<close> on strings that may be null: null and the empty string are falsy.\<close>
  "or_else a b = (case a of Some x \<Rightarrow> if x \<noteq> [] then Some x else b | None \<Rightarrow> b)"

definition processPokemonData :: "(code_unit \<Rightarrow> js_string) \<Rightarrow> raw_pokemon \<Rightarrow> pokemon" where
  "processPokemonData tbl data =
     \<lparr> pid = raw_id data,
       name = capitalizeFirstLetter tbl (raw_name data),
       sprite = or_else (official_artwork data) (front_default data),
       types = raw_types data,
       height = of_int (raw_height data) / 10,
       weight = of_int (raw_weight data) / 10,
       abilities = map (capitalizeFirstLetter tbl) (raw_abilities data),
       stats = \<lparr> hp = findStat (raw_stats data) (js ''hp''),
                 attack = findStat (raw_stats data) (js ''attack''),
                 defense = findStat (raw_stats data) (js ''defense''),
                 speed = findStat (raw_stats data) (js ''speed'') \<rparr>,
       speciesUrl = species_url data \<rparr>"

text \<open>
  What one request to the catalog comes to: \<open>fetch\<close> rejects (\<open>NetworkFailure\<close>), or it
  gives a response with its \<open>ok\<close> flag, its status and its body. The body is not JSON
  (\<open>response.json()\<close> rejects), or JSON on which \<open>processPokemonData\<close> throws a
  \<open>TypeError\<close> (a field it dereferences is missing), or a record of the catalog.
\<close>

datatype payload = NotJson | Malformed | Wellformed raw_pokemon

datatype response = NetworkFailure | Response (ok: bool) (status: nat) (body: payload)

datatype error = FetchRejected | HttpError nat | SyntaxError | TypeError

definition randomId :: "random_number \<Rightarrow> int" where
  \<comment> \<open>\<open>Math.floor(Math.random() * TOTAL_POKEMON) + 1\<close>, for the value \<open>r\<close> of \<open>Math.random()\<close>\<close>
  "randomId r = \<lfloor>double_product r (nat TOTAL_POKEMON)\<rfloor> + 1"

definition fetchRandomPokemon_try ::
  "(code_unit \<Rightarrow> js_string) \<Rightarrow> random_number \<Rightarrow> (int \<Rightarrow> response) \<Rightarrow> error + pokemon" where
  \<comment> \<open>The \<open>try\<close> block of \<open>fetchRandomPokemon\<close>; \<open>server\<close> answers the request for an identifier.\<close>
  "fetchRandomPokemon_try tbl r server =
     (case server (randomId r) of
        NetworkFailure \<Rightarrow> Inl FetchRejected
      | Response isok st b \<Rightarrow>
          if \<not> isok then Inl (HttpError st)
          else (case b of
                  NotJson \<Rightarrow> Inl SyntaxError
                | Malformed \<Rightarrow> Inl TypeError
                | Wellformed data \<Rightarrow> Inr (processPokemonData tbl data)))"

definition fetchRandomPokemon ::
  "(code_unit \<Rightarrow> js_string) \<Rightarrow> random_number \<Rightarrow> (int \<Rightarrow> response) \<Rightarrow> error + pokemon option" where
  \<comment> \<open>How the promise settles: \<open>Inl\<close> rejected, \<open>Inr\<close> fulfilled, with \<open>None\<close> for null.
      The \<open>catch\<close> logs the error and returns null.\<close>
  "fetchRandomPokemon tbl r server =
     (case fetchRandomPokemon_try tbl r server of
        Inl e \<Rightarrow> Inr None
      | Inr p \<Rightarrow> Inr (Some p))"

fun Promise_all :: "(error + 'a) list \<Rightarrow> error + 'a list" where
  \<comment> \<open>\<open>Promise.all\<close>: the values in the order of the promises, or a rejection when one
      of them rejects.\<close>
  "Promise_all [] = Inr []"
| "Promise_all (Inl e # ps) = Inl e"
| "Promise_all (Inr v # ps) = (case Promise_all ps of Inl e \<Rightarrow> Inl e | Inr vs \<Rightarrow> Inr (v # vs))"

type_synonym network = "nat \<Rightarrow> random_number \<times> (int \<Rightarrow> response)"

definition fetchMultipleRandomPokemon_try ::
  "(code_unit \<Rightarrow> js_string) \<Rightarrow> nat \<Rightarrow> network \<Rightarrow> error + pokemon list" where
  \<comment> \<open>The \<open>try\<close> block; \<open>cnt\<close> is the parameter \<open>count\<close>, a number of Pokemon. \<open>net i\<close> is
      what the call of index \<open>i\<close> meets: the value of \<open>Math.random()\<close> and the catalog's
      answers.\<close>
  "fetchMultipleRandomPokemon_try tbl cnt net =
     (let promises = map (\<lambda>i. fetchRandomPokemon tbl (fst (net i)) (snd (net i))) [0..<cnt]
      in case Promise_all promises of
           Inl e \<Rightarrow> Inl e
         | Inr pokemonList \<Rightarrow> Inr (map the (filter (\<lambda>p. p \<noteq> None) pokemonList)))"

definition fetchMultipleRandomPokemon ::
  "(code_unit \<Rightarrow> js_string) \<Rightarrow> nat \<Rightarrow> network \<Rightarrow> error + pokemon list" where
  "fetchMultipleRandomPokemon tbl cnt net =
     (case fetchMultipleRandomPokemon_try tbl cnt net of
        Inl e \<Rightarrow> Inr []
      | Inr l \<Rightarrow> Inr l)"

definition successful_fetches :: "(code_unit \<Rightarrow> js_string) \<Rightarrow> nat \<Rightarrow> network \<Rightarrow> pokemon list" where
  \<comment> \<open>The results of those of the calls \<open>0, ..., cnt - 1\<close> whose \<open>try\<close> block came through,
      in the order of the calls: what the batch is to return.\<close>
  "successful_fetches tbl cnt net =
     concat (map (\<lambda>i. case fetchRandomPokemon_try tbl (fst (net i)) (snd (net i)) of
                          Inl e \<Rightarrow> []
                        | Inr p \<Rightarrow> [p]) [0..<cnt])"

section \<open>The game (src/js/app.js)\<close>

definition CARD_COUNT :: nat where
  "CARD_COUNT = 12"

definition TOTAL_PAIRS :: nat where
  "TOTAL_PAIRS = 6"

subsection \<open>Pairs and shuffle\<close>

definition random_index :: "random_number \<Rightarrow> nat \<Rightarrow> nat" where
  \<comment> \<open>\<open>Math.floor(Math.random() * (i + 1))\<close>, for the value \<open>r\<close> of \<open>Math.random()\<close>\<close>
  "random_index r i = nat \<lfloor>double_product r (i + 1)\<rfloor>"

definition swap :: "nat \<Rightarrow> nat \<Rightarrow> 'a list \<Rightarrow> 'a list" where
  \<comment> \<open>\<open>[a[i], a[j]] = [a[j], a[i]]\<close>, for indices inside the array\<close>
  "swap i j a = a[i := a ! j, j := a ! i]"

fun shuffle_loop :: "(nat \<Rightarrow> random_number) \<Rightarrow> nat \<Rightarrow> 'a list \<Rightarrow> 'a list" where
  \<comment> \<open>\<open>for (i = ...; i > 0; i--)\<close>; \<open>rnd i\<close> is the value \<open>Math.random()\<close> returns in the
      iteration of index \<open>i\<close>.\<close>
  "shuffle_loop rnd 0 a = a"
| "shuffle_loop rnd (Suc n) a =
     (let i = Suc n; j = random_index (rnd i) i in shuffle_loop rnd n (swap i j a))"

definition shuffleArray :: "(nat \<Rightarrow> random_number) \<Rightarrow> 'a list \<Rightarrow> 'a list" where
  \<comment> \<open>\<open>structuredClone\<close> gives an equal value; the loop starts at \<open>length - 1\<close> and does
      nothing on the empty array.\<close>
  "shuffleArray rnd array = shuffle_loop rnd (length array - 1) array"

text \<open>
  The shuffle in the words of the specification, with nothing of the program in it: the
  sequence in which the elements at \<open>i\<close> and \<open>j\<close> have changed places is given position by
  position, and the index picked for \<open>i\<close>, any index in \<open>0..i\<close>, is the parameter \<open>pick\<close>.
\<close>

definition exchange :: "nat \<Rightarrow> nat \<Rightarrow> 'a list \<Rightarrow> 'a list" where
  "exchange i j a =
     map (\<lambda>k. if k = i then a ! j else if k = j then a ! i else a ! k) [0..<length a]"

definition shuffle_by_spec :: "(nat \<Rightarrow> nat) \<Rightarrow> 'a list \<Rightarrow> 'a list" where
  \<comment> \<open>for the index \<open>i\<close> from the last down to 1, swap the element \<open>i\<close> with the element at
      the picked index\<close>
  "shuffle_by_spec pick xs = fold (\<lambda>i a. exchange i (pick i) a) (rev [1..<length xs]) xs"

definition pokemonPairs :: "pokemon list \<Rightarrow> pokemon list" where
  \<comment> \<open>two copies of each Pokemon, \<open>{ ...pokemon }\<close> being an equal value\<close>
  "pokemonPairs pokemonList = concat (map (\<lambda>p. [p, p]) pokemonList)"

definition shuffledPairs :: "(nat \<Rightarrow> random_number) \<Rightarrow> pokemon list \<Rightarrow> pokemon list" where
  "shuffledPairs rnd pokemonList = shuffleArray rnd (pokemonPairs pokemonList)"

subsection \<open>Cards and session state\<close>

text \<open>
  A card element, with what the game reads of it: the classes \<open>flipped\<close> and \<open>matched\<close> of
  its class list, and \<open>dataset.pokemon\<close>. The data attribute holds the JSON text of the
  Pokemon, which \<open>JSON.parse\<close> reads back to an equal value, so the model keeps the value;
  \<open>None\<close> is the attribute not set, where \<open>JSON.parse(undefined)\<close> throws.
\<close>

record card =
  flipped :: bool
  matched :: bool
  dataset_pokemon :: "pokemon option"

datatype visibility = Hidden | Revealed | Matched

definition visibility_of :: "card \<Rightarrow> visibility" where
  "visibility_of c = (if matched c then Matched else if flipped c then Revealed else Hidden)"

text \<open>
  The module's variables and what the page shows. A card is referred to by its index in
  \<open>cards\<close>. The callbacks given to \<open>setTimeout\<close> close over nothing, so the pending ones
  are counted; \<open>pendingDeals\<close> counts the calls of \<open>fetchAndAssignPokemon\<close> that
  \<open>resetGame\<close> started and that have not come back.
\<close>

record game =
  cards :: "card list"
  firstSelectedCard :: "nat option"
  secondSelectedCard :: "nat option"
  isProcessingPair :: bool
  matchedPairs :: nat
  spinnerHidden :: bool
  gridHidden :: bool
  listening :: bool
  errorContainers :: nat
  completionMessages :: nat
  mismatchTimers :: nat
  completeTimers :: nat
  pendingDeals :: nat

definition page_loaded :: "bool \<Rightarrow> bool \<Rightarrow> game" where
  \<comment> \<open>The state when the module has been evaluated. Whether the spinner and the grid are
      hidden then is the page's business (index.html), hence the two parameters.\<close>
  "page_loaded sp gr =
     \<lparr> cards = [], firstSelectedCard = None, secondSelectedCard = None,
       isProcessingPair = False, matchedPairs = 0,
       spinnerHidden = sp, gridHidden = gr, listening = False,
       errorContainers = 0, completionMessages = 0,
       mismatchTimers = 0, completeTimers = 0, pendingDeals = 0 \<rparr>"

definition update_card :: "nat \<Rightarrow> (card \<Rightarrow> card) \<Rightarrow> game \<Rightarrow> game" where
  "update_card i f s = s\<lparr>cards := (cards s)[i := f (cards s ! i)]\<rparr>"

definition createCardElement :: "nat \<Rightarrow> card" where
  "createCardElement index = \<lparr> flipped = False, matched = False, dataset_pokemon = None \<rparr>"

definition createCardElements :: "game \<Rightarrow> game" where
  "createCardElements s = s\<lparr>cards := map createCardElement [0..<CARD_COUNT]\<rparr>"

definition assignPokemonToCard :: "card \<Rightarrow> pokemon \<Rightarrow> card" where
  \<comment> \<open>The rest of the function fills the back of the card.\<close>
  "assignPokemonToCard c p = c\<lparr>dataset_pokemon := Some p\<rparr>"

definition assign_cards :: "pokemon list \<Rightarrow> card list \<Rightarrow> card list" where
  \<comment> \<open>The loop over \<open>i < Math.min(CARD_COUNT, shuffledPairs.length)\<close>; \<open>cards[i]\<close> is
      undefined from the length of \<open>cards\<close> on.\<close>
  "assign_cards shuffled cs =
     fold (\<lambda>i cs. if i < length cs then cs[i := assignPokemonToCard (cs ! i) (shuffled ! i)] else cs)
          [0..<min CARD_COUNT (length shuffled)] cs"

definition showErrorMessage :: "game \<Rightarrow> game" where
  \<comment> \<open>An error container with the message and its retry button is added to the page.\<close>
  "showErrorMessage s = s\<lparr>errorContainers := errorContainers s + 1\<rparr>"

definition fetchAndAssignPokemon ::
  "(code_unit \<Rightarrow> js_string) \<Rightarrow> network \<Rightarrow> (nat \<Rightarrow> random_number) \<Rightarrow> game \<Rightarrow> game" where
  \<comment> \<open>The effect on the state once the awaited batch has settled: the \<open>catch\<close> when it
      rejected, the assignment otherwise (building the pairs, the shuffle and the
      assignment of plain data do not throw).\<close>
  "fetchAndAssignPokemon tbl net rnd s =
     (case fetchMultipleRandomPokemon tbl 6 net of
        Inl e \<Rightarrow> showErrorMessage s
      | Inr pokemonList \<Rightarrow> s\<lparr>cards := assign_cards (shuffledPairs rnd pokemonList) (cards s)\<rparr>)"

definition initApp :: "(code_unit \<Rightarrow> js_string) \<Rightarrow> network \<Rightarrow> (nat \<Rightarrow> random_number) \<Rightarrow> game \<Rightarrow> game" where
  "initApp tbl net rnd s =
     (let s1 = s\<lparr>spinnerHidden := False\<rparr>;
          s2 = s1\<lparr>gridHidden := True\<rparr>;
          s3 = createCardElements s2;
          s4 = fetchAndAssignPokemon tbl net rnd s3;
          s5 = s4\<lparr>listening := True\<rparr>;
          s6 = s5\<lparr>spinnerHidden := True\<rparr>
      in s6\<lparr>gridHidden := False\<rparr>)"

subsection \<open>Clicks and matching\<close>

definition resetSelection :: "game \<Rightarrow> game" where
  "resetSelection s = s\<lparr>firstSelectedCard := None, secondSelectedCard := None\<rparr>"

definition handleMatch :: "game \<Rightarrow> game" where
  \<comment> \<open>Called by \<open>checkForMatch\<close> with both selections set.\<close>
  "handleMatch s =
     (case (firstSelectedCard s, secondSelectedCard s) of
        (Some a, Some b) \<Rightarrow>
          (let s1 = update_card a (\<lambda>c. c\<lparr>matched := True\<rparr>) s;
               s2 = update_card b (\<lambda>c. c\<lparr>matched := True\<rparr>) s1;
               s3 = s2\<lparr>matchedPairs := matchedPairs s2 + 1\<rparr>;
               s4 = (if matchedPairs s3 = TOTAL_PAIRS
                     then s3\<lparr>completeTimers := completeTimers s3 + 1\<rparr> else s3)
           in resetSelection s4)
      | _ \<Rightarrow> s)"

definition handleNonMatch :: "game \<Rightarrow> game" where
  \<comment> \<open>The lock is set and the callback is left with \<open>setTimeout\<close>.\<close>
  "handleNonMatch s = s\<lparr>isProcessingPair := True, mismatchTimers := mismatchTimers s + 1\<rparr>"

definition flip_back :: "game \<Rightarrow> game" where
  \<comment> \<open>The callback of \<open>handleNonMatch\<close>. It reads the selections when it runs; on a null
      selection it stops with a \<open>TypeError\<close>, keeping what it did before.\<close>
  "flip_back s =
     (case firstSelectedCard s of
        None \<Rightarrow> s
      | Some a \<Rightarrow>
          (let s1 = update_card a (\<lambda>c. c\<lparr>flipped := False\<rparr>) s
           in case secondSelectedCard s1 of
                None \<Rightarrow> s1
              | Some b \<Rightarrow>
                  (let s2 = update_card b (\<lambda>c. c\<lparr>flipped := False\<rparr>) s1;
                       s3 = resetSelection s2
                   in s3\<lparr>isProcessingPair := False\<rparr>)))"

definition checkForMatch :: "game \<Rightarrow> game" where
  \<comment> \<open>The \<open>try\<close> around the two \<open>JSON.parse\<close> calls catches the missing attribute (and a
      null selection); a parsed Pokemon is an object, so the guard after it never fires.\<close>
  "checkForMatch s =
     (case firstSelectedCard s of
        None \<Rightarrow> resetSelection s
      | Some a \<Rightarrow>
          (case dataset_pokemon (cards s ! a) of
             None \<Rightarrow> resetSelection s
           | Some firstPokemonData \<Rightarrow>
               (case secondSelectedCard s of
                  None \<Rightarrow> resetSelection s
                | Some b \<Rightarrow>
                    (case dataset_pokemon (cards s ! b) of
                       None \<Rightarrow> resetSelection s
                     | Some secondPokemonData \<Rightarrow>
                         if pid firstPokemonData = pid secondPokemonData
                         then handleMatch s else handleNonMatch s))))"

definition closest_card :: "game \<Rightarrow> nat option \<Rightarrow> nat option" where
  \<comment> \<open>\<open>event.target.closest('.card')\<close>: the card the click fell on, if any. The target of
      a click is given as the index of that card.\<close>
  "closest_card s target =
     (case target of None \<Rightarrow> None | Some i \<Rightarrow> if i < length (cards s) then Some i else None)"

definition handleCardClick :: "nat option \<Rightarrow> game \<Rightarrow> game" where
  "handleCardClick target s =
     (case closest_card s target of
        None \<Rightarrow> s
      | Some i \<Rightarrow>
          if flipped (cards s ! i) \<or> matched (cards s ! i) then s
          else if isProcessingPair s then s
          else (let s1 = update_card i (\<lambda>c. c\<lparr>flipped := True\<rparr>) s
                in case firstSelectedCard s1 of
                     None \<Rightarrow> s1\<lparr>firstSelectedCard := Some i\<rparr>
                   | Some a \<Rightarrow>
                       if a \<noteq> i then checkForMatch (s1\<lparr>secondSelectedCard := Some i\<rparr>)
                       else s1))"

definition showGameComplete :: "game \<Rightarrow> game" where
  "showGameComplete s = s\<lparr>completionMessages := completionMessages s + 1\<rparr>"

definition resetGame :: "game \<Rightarrow> game" where
  \<comment> \<open>The call of \<open>fetchAndAssignPokemon\<close> at the end is not awaited.\<close>
  "resetGame s =
     (let s1 = s\<lparr>firstSelectedCard := None, secondSelectedCard := None,
                  isProcessingPair := False, matchedPairs := 0\<rparr>;
          s2 = s1\<lparr>cards := map (\<lambda>c. c\<lparr>matched := False\<rparr>) (cards s1)\<rparr>;
          s3 = s2\<lparr>cards := map (\<lambda>c. c\<lparr>flipped := False\<rparr>) (cards s2)\<rparr>
      in s3\<lparr>pendingDeals := pendingDeals s3 + 1\<rparr>)"

definition play_again :: "game \<Rightarrow> game" where
  \<comment> \<open>The listener of the button of the completion message.\<close>
  "play_again s = resetGame (s\<lparr>completionMessages := completionMessages s - 1\<rparr>)"

subsection \<open>The session as a transition system\<close>

text \<open>
  What can happen after \<open>initApp\<close>: a click, one of the two timers running out, the
  button of the completion message, and a deal started by \<open>resetGame\<close> coming back with
  what the network and \<open>Math.random()\<close> gave it. Each runs to its end before the next
  (one thread). The retry button of an error container is not among them: it exists
  only after \<open>showErrorMessage\<close>, which no reachable state has run
  (\<open>reachable_no_error\<close> below).
\<close>

datatype event =
    Click "nat option"
  | MismatchTimeout
  | CompleteTimeout
  | PlayAgain
  | DealArrives network "nat \<Rightarrow> random_number"

fun enabled :: "event \<Rightarrow> game \<Rightarrow> bool" where
  "enabled (Click target) s = listening s"
| "enabled MismatchTimeout s = (0 < mismatchTimers s)"
| "enabled CompleteTimeout s = (0 < completeTimers s)"
| "enabled PlayAgain s = (0 < completionMessages s)"
| "enabled (DealArrives net rnd) s = (0 < pendingDeals s)"

fun step :: "(code_unit \<Rightarrow> js_string) \<Rightarrow> event \<Rightarrow> game \<Rightarrow> game" where
  "step tbl (Click target) s = handleCardClick target s"
| "step tbl MismatchTimeout s = flip_back (s\<lparr>mismatchTimers := mismatchTimers s - 1\<rparr>)"
| "step tbl CompleteTimeout s = showGameComplete (s\<lparr>completeTimers := completeTimers s - 1\<rparr>)"
| "step tbl PlayAgain s = play_again s"
| "step tbl (DealArrives net rnd) s =
     fetchAndAssignPokemon tbl net rnd (s\<lparr>pendingDeals := pendingDeals s - 1\<rparr>)"

inductive reachable :: "(code_unit \<Rightarrow> js_string) \<Rightarrow> game \<Rightarrow> bool" for tbl where
  start: "reachable tbl (initApp tbl net rnd (page_loaded sp gr))"
| next_state: "reachable tbl s \<Longrightarrow> enabled e s \<Longrightarrow> reachable tbl (step tbl e s)"

subsection \<open>Sample inputs\<close>

text \<open>
  Inputs for the worked instances below: a network on which every request fails, a
  catalog that answers every identifier with a record, and a network on which the call
  of index \<open>i\<close> gets \<open>(i + 1) / 1024\<close> from \<open>Math.random()\<close>, so draws the identifier
  \<open>i + 1\<close>, and the sixth call meets a 404.
\<close>

definition failing_net :: network where
  "failing_net i = (random_zero, \<lambda>ident. NetworkFailure)"

definition catalog :: "int \<Rightarrow> response" where
  "catalog ident =
     Response True 200 (Wellformed
       \<lparr> raw_id = ident, raw_name = js ''mr-mime'',
         official_artwork = None, front_default = Some (js ''front.png''),
         raw_types = [js ''psychic''], raw_height = 13, raw_weight = 545,
         raw_abilities = [js ''soundproof''], raw_stats = [(js ''hp'', 40)],
         species_url = js ''species'' \<rparr>)"

definition five_of_six :: network where
  "five_of_six i =
     (\<lparr> mantissa = i + 1, binary_places = 10 \<rparr>,
      if i = 5 then (\<lambda>ident. Response False 404 NotJson) else catalog)"

definition rounding_sample :: random_number where
  \<comment> \<open>A double just below 5/6: six times it is rounded to 5, the exact product being
      below 5.\<close>
  "rounding_sample = \<lparr> mantissa = 3752999689475413, binary_places = 52 \<rparr>"

definition rounding_sample_id :: random_number where
  \<comment> \<open>A double just below 64/1008: 1008 times it is rounded to 64.\<close>
  "rounding_sample_id = \<lparr> mantissa = 285942833483841, binary_places = 52 \<rparr>"

definition sample_session :: game where
  \<comment> \<open>The session after \<open>initApp\<close> on that network, every \<open>Math.random()\<close> of the shuffle
      being 0: ten cards are bound, the last two are not.\<close>
  "sample_session = initApp unicode_latin1 five_of_six (\<lambda>i. random_zero) (page_loaded False True)"

definition sample_first_pick :: game where
  \<comment> \<open>the slot 1, bound to the identifier 2, has been picked\<close>
  "sample_first_pick = handleCardClick (Some 1) sample_session"

definition sample_locked :: game where
  \<comment> \<open>then the slot 3, bound to the identifier 3: a mismatch\<close>
  "sample_locked = handleCardClick (Some 3) sample_first_pick"

definition sample_unbound_pick :: game where
  \<comment> \<open>the unbound slot 10 has been picked\<close>
  "sample_unbound_pick = handleCardClick (Some 10) sample_session"

text \<open>
  A whole game: all six requests succeed, with the identifiers 1 to 6, and every
  \<open>Math.random()\<close> of the shuffle is 0, which puts the identifiers
  1, 2, 2, 3, 3, 4, 4, 5, 5, 6, 6, 1 on the slots. Eleven picks find five pairs and
  reveal the slot 9; the pick of the slot 10 finds the sixth.
\<close>

definition six_of_six :: network where
  "six_of_six i = (\<lparr> mantissa = i + 1, binary_places = 10 \<rparr>, catalog)"

definition full_session :: game where
  "full_session = initApp unicode_latin1 six_of_six (\<lambda>i. random_zero) (page_loaded False True)"

definition picks :: "nat list \<Rightarrow> game \<Rightarrow> game" where
  "picks ts s = fold (\<lambda>i. step unicode_latin1 (Click (Some i))) ts s"

definition eleven_picks :: game where
  "eleven_picks = picks [0, 11, 1, 2, 3, 4, 5, 6, 7, 8, 9] full_session"

definition completed_session :: game where
  \<comment> \<open>the sixth pair is found and the completion message is shown\<close>
  "completed_session =
     step unicode_latin1 CompleteTimeout (step unicode_latin1 (Click (Some 10)) eleven_picks)"

subsection \<open>The invariant of the session\<close>

text \<open>
  What every reachable state satisfies: the grid has its \<open>CARD_COUNT\<close> cards, each
  counted pair stands for two matched cards, a pending first selection is not matched,
  a pending second selection exists only under the lock, the lock is on exactly while
  the callback of \<open>handleNonMatch\<close> is pending, the completion is pending or shown at
  most once and only with all pairs found, and no error container was ever shown.
\<close>

definition session_inv :: "game \<Rightarrow> bool" where
  "session_inv s \<longleftrightarrow>
     length (cards s) = CARD_COUNT
   \<and> 2 * matchedPairs s = length (filter matched (cards s))
   \<and> (\<forall>a. firstSelectedCard s = Some a \<longrightarrow> a < CARD_COUNT \<and> \<not> matched (cards s ! a))
   \<and> (\<forall>b. secondSelectedCard s = Some b \<longrightarrow> isProcessingPair s)
   \<and> (isProcessingPair s \<longrightarrow>
        (\<exists>a b. firstSelectedCard s = Some a \<and> secondSelectedCard s = Some b \<and> a \<noteq> b
               \<and> b < CARD_COUNT \<and> \<not> matched (cards s ! b)))
   \<and> mismatchTimers s = (if isProcessingPair s then 1 else 0)
   \<and> completeTimers s + completionMessages s \<le> 1
   \<and> (0 < completeTimers s + completionMessages s \<longrightarrow> matchedPairs s = TOTAL_PAIRS)
   \<and> errorContainers s = 0
   \<and> listening s"

section \<open>The product of doubles\<close>

lemma bit_length_upper: "n < 2 ^ bit_length n"
proof (induction n rule: bit_length.induct)
  case (1 n)
  show ?case
  proof (cases "n = 0")
    case True
    then show ?thesis by (simp add: bit_length.simps)
  next
    case False
    with 1 have "n div 2 < 2 ^ bit_length (n div 2)" by simp
    then have "n < 2 * 2 ^ bit_length (n div 2)" by linarith
    with False show ?thesis by (simp add: bit_length.simps [of n])
  qed
qed

lemma bit_length_lower: "0 < n \<Longrightarrow> 2 ^ (bit_length n - 1) \<le> n"
proof (induction n rule: bit_length.induct)
  case (1 n)
  show ?case
  proof (cases "n div 2 = 0")
    case True
    with 1(2) have "n = 1" by linarith
    then show ?thesis by (simp add: bit_length.simps)
  next
    case False
    with 1 have h: "2 ^ (bit_length (n div 2) - 1) \<le> n div 2" by simp
    from False have "0 < bit_length (n div 2)" by (simp add: bit_length.simps [of "n div 2"])
    then have "bit_length n - 1 = Suc (bit_length (n div 2) - 1)"
      using 1(2) by (simp add: bit_length.simps [of n])
    with h show ?thesis by simp
  qed
qed

lemma bit_length_le: "n < 2 ^ w \<Longrightarrow> bit_length n \<le> w"
proof (rule ccontr)
  assume n: "n < 2 ^ w" and "\<not> bit_length n \<le> w"
  then have w: "w \<le> bit_length n - 1" by simp
  then have "0 < n" using \<open>\<not> bit_length n \<le> w\<close> by (cases "n = 0") (simp_all add: bit_length.simps)
  then have "2 ^ (bit_length n - 1) \<le> n" by (rule bit_length_lower)
  moreover have "(2::nat) ^ w \<le> 2 ^ (bit_length n - 1)" using w by (simp add: power_increasing)
  ultimately show False using n by linarith
qed

lemma round_half_even_cases:
  obtains (down) "round_half_even p s = (p div 2 ^ s) * 2 ^ s"
  | (up) "round_half_even p s = (p div 2 ^ s) * 2 ^ s + 2 ^ s" "2 ^ s \<le> 2 * (p mod 2 ^ s)"
proof (cases "2 ^ s < 2 * (p mod 2 ^ s) \<or> (2 * (p mod 2 ^ s) = 2 ^ s \<and> odd (p div 2 ^ s))")
  case True
  then have "round_half_even p s = (p div 2 ^ s) * 2 ^ s + 2 ^ s"
    by (simp add: round_half_even_def Let_def)
  moreover from True have "2 ^ s \<le> 2 * (p mod 2 ^ s)" by auto
  ultimately show ?thesis by (rule up)
next
  case False
  then have "round_half_even p s = (p div 2 ^ s) * 2 ^ s"
    by (simp add: round_half_even_def Let_def)
  then show ?thesis by (rule down)
qed

lemma round_half_even_upper: "2 * round_half_even p s \<le> 2 * p + 2 ^ s"
proof -
  have e: "(p div 2 ^ s) * 2 ^ s + p mod 2 ^ s = p" by (rule div_mult_mod_eq)
  show ?thesis
  proof (cases p s rule: round_half_even_cases)
    case down
    with e show ?thesis by linarith
  next
    case up
    with e show ?thesis by linarith
  qed
qed

lemma round_half_even_lower: "m * 2 ^ s \<le> p \<Longrightarrow> m * 2 ^ s \<le> round_half_even p s"
proof -
  assume a: "m * 2 ^ s \<le> p"
  then have "m \<le> p div 2 ^ s" by (simp add: less_eq_div_iff_mult_less_eq)
  then have "m * 2 ^ s \<le> (p div 2 ^ s) * 2 ^ s" by simp
  then show ?thesis
    by (cases p s rule: round_half_even_cases) (simp_all add: trans_le_add1)
qed

lemma round_half_even_least: "p \<le> m * 2 ^ s \<Longrightarrow> round_half_even p s \<le> m * 2 ^ s"
proof (cases p s rule: round_half_even_cases)
  case down
  assume "p \<le> m * 2 ^ s"
  moreover have "(p div 2 ^ s) * 2 ^ s \<le> p" by simp
  ultimately show ?thesis using down by linarith
next
  case up
  assume a: "p \<le> m * 2 ^ s"
  have "0 < p mod 2 ^ s" using up(2) by (cases "p mod 2 ^ s = 0") simp_all
  have "p div 2 ^ s < m"
  proof (rule ccontr)
    assume "\<not> p div 2 ^ s < m"
    then have "m \<le> p div 2 ^ s" by simp
    then have "m * 2 ^ s \<le> (p div 2 ^ s) * 2 ^ s" by simp
    moreover have "(p div 2 ^ s) * 2 ^ s + p mod 2 ^ s = p" by (rule div_mult_mod_eq)
    ultimately show False using a \<open>0 < p mod 2 ^ s\<close> by linarith
  qed
  then have "Suc (p div 2 ^ s) \<le> m" by simp
  then have "Suc (p div 2 ^ s) * 2 ^ s \<le> m * 2 ^ s" by (rule mult_le_mono1)
  with up(1) show ?thesis by simp
qed

lemma bit_length_numeral [simp]:
  "bit_length 0 = 0"
  "bit_length (Suc 0) = 1"
  "bit_length (numeral k) = Suc (bit_length (numeral k div 2))"
  by (simp_all add: bit_length.simps [of 0] bit_length.simps [of "Suc 0"] bit_length.simps [of "numeral k"])

lemma floor_quotient: "\<lfloor>(of_nat a :: rat) / 2 ^ k\<rfloor> = int (a div 2 ^ k)"
proof -
  have "(2::rat) ^ k = of_nat (2 ^ k)" by simp
  then show ?thesis by (simp only: floor_divide_of_nat_eq)
qed

lemma random_index_div:
  "random_index r i =
     round_half_even (mantissa r * (i + 1)) (bit_length (mantissa r * (i + 1)) - 53)
       div 2 ^ binary_places r"
  by (simp add: random_index_def double_product_def Let_def floor_quotient)

lemma rounding_step_small:
  assumes "m < 2 ^ 53" and "0 < n"
  shows "2 ^ (bit_length (m * n) - 53) < 2 * n"
proof (cases "bit_length (m * n) - 53 = 0")
  case True
  with assms(2) show ?thesis by simp
next
  case False
  define s where "s = bit_length (m * n) - 53"
  define P where "P = (2::nat) ^ 52"
  have P: "0 < P" "(2::nat) ^ 53 = 2 * P" by (simp_all add: P_def)
  from False have b: "bit_length (m * n) - 1 = 52 + s" by (simp add: s_def)
  have "0 < m * n"
    using False by (cases "m * n = 0") (simp_all add: bit_length.simps [of 0])
  then have "2 ^ (bit_length (m * n) - 1) \<le> m * n" by (rule bit_length_lower)
  then have "P * 2 ^ s \<le> m * n" by (simp only: b power_add P_def)
  also have "m * n < 2 ^ 53 * n" using assms by (rule mult_less_mono1)
  also have "2 ^ 53 * n = P * (2 * n)" unfolding P(2) by simp
  finally have "P * 2 ^ s < P * (2 * n)" .
  then show ?thesis unfolding s_def by (simp only: mult_less_cancel1)
qed

lemma rounded_product_less:
  assumes "random_double r" and "0 < n"
  shows "round_half_even (mantissa r * n) (bit_length (mantissa r * n) - 53)
           < n * 2 ^ binary_places r"
proof -
  let ?p = "mantissa r * n" and ?s = "bit_length (mantissa r * n) - 53"
  from assms have "2 ^ ?s < 2 * n" by (intro rounding_step_small) (simp add: random_double_def)
  moreover have "2 * round_half_even ?p ?s \<le> 2 * ?p + 2 ^ ?s" by (rule round_half_even_upper)
  moreover have "Suc (mantissa r) \<le> 2 ^ binary_places r"
    using assms(1) by (simp add: random_double_def)
  then have "Suc (mantissa r) * n \<le> 2 ^ binary_places r * n" by (rule mult_le_mono1)
  ultimately show ?thesis by (simp add: algebra_simps)
qed

lemma random_index_le:
  assumes "random_double r"
  shows "random_index r i \<le> i"
proof -
  have "round_half_even (mantissa r * (i + 1)) (bit_length (mantissa r * (i + 1)) - 53)
          < (i + 1) * 2 ^ binary_places r"
    using assms by (intro rounded_product_less) simp_all
  then have "random_index r i < i + 1"
    unfolding random_index_div by (simp add: less_mult_imp_div_less)
  then show ?thesis by simp
qed

lemma rounding_step_le_places:
  assumes "random_double r" and "0 < n" and "n \<le> 2 ^ 53"
  shows "bit_length (mantissa r * n) - 53 \<le> binary_places r"
proof -
  have "mantissa r * n < 2 ^ binary_places r * n"
    using assms by (simp add: random_double_def)
  also have "\<dots> \<le> 2 ^ binary_places r * 2 ^ 53" using assms(3) by simp
  finally have "mantissa r * n < 2 ^ (binary_places r + 53)" by (simp add: power_add)
  then have "bit_length (mantissa r * n) \<le> binary_places r + 53" by (rule bit_length_le)
  then show ?thesis by simp
qed

lemma multiple_of_step:
  assumes "s \<le> k"
  shows "c * 2 ^ k = (c * 2 ^ (k - s)) * (2::nat) ^ s"
proof -
  have "(2::nat) ^ k = 2 ^ (k - s) * 2 ^ s" using assms by (simp flip: power_add)
  then show ?thesis by simp
qed

lemma value_times: "value_of r * of_nat n = of_nat (mantissa r * n) / 2 ^ binary_places r"
  by (simp add: value_of_def)

lemma random_index_between:
  assumes "random_double r" and "i < 2 ^ 53"
  shows "\<lfloor>value_of r * of_nat (i + 1)\<rfloor> \<le> int (random_index r i)
       \<and> int (random_index r i) \<le> \<lceil>value_of r * of_nat (i + 1)\<rceil>"
proof -
  let ?k = "binary_places r"
  let ?p = "mantissa r * (i + 1)"
  let ?s = "bit_length ?p - 53"
  let ?R = "round_half_even ?p ?s"
  let ?x = "value_of r * of_nat (i + 1)"
  have x: "?x = of_nat ?p / 2 ^ ?k" by (rule value_times)
  have sk: "?s \<le> ?k" using assms by (intro rounding_step_le_places) simp_all
  have "\<lfloor>?x\<rfloor> = int (?p div 2 ^ ?k)" unfolding x by (rule floor_quotient)
  moreover have "?p div 2 ^ ?k \<le> ?R div 2 ^ ?k"
  proof -
    have "(?p div 2 ^ ?k) * 2 ^ ?k \<le> ?p" by simp
    then have "((?p div 2 ^ ?k) * 2 ^ (?k - ?s)) * 2 ^ ?s \<le> ?p"
      by (simp only: multiple_of_step [OF sk, symmetric])
    then have "((?p div 2 ^ ?k) * 2 ^ (?k - ?s)) * 2 ^ ?s \<le> ?R" by (rule round_half_even_lower)
    then have "(?p div 2 ^ ?k) * 2 ^ ?k \<le> ?R"
      by (simp only: multiple_of_step [OF sk, symmetric])
    then show ?thesis by (simp add: less_eq_div_iff_mult_less_eq)
  qed
  moreover have "int (?R div 2 ^ ?k) \<le> \<lceil>?x\<rceil>"
  proof -
    define c where "c = nat \<lceil>?x\<rceil>"
    have "0 \<le> ?x" unfolding x by simp
    then have c: "of_nat c = (of_int \<lceil>?x\<rceil> :: rat)" by (simp add: c_def)
    have "?x \<le> of_nat c" unfolding c by (rule le_of_int_ceiling)
    then have "(of_nat ?p :: rat) \<le> of_nat c * 2 ^ ?k" unfolding x by (simp add: divide_le_eq)
    then have "(of_nat ?p :: rat) \<le> of_nat (c * 2 ^ ?k)" by simp
    then have "?p \<le> c * 2 ^ ?k" by (simp only: of_nat_le_iff)
    then have "?p \<le> (c * 2 ^ (?k - ?s)) * 2 ^ ?s" by (simp only: multiple_of_step [OF sk, symmetric])
    then have "?R \<le> (c * 2 ^ (?k - ?s)) * 2 ^ ?s" by (rule round_half_even_least)
    then have "?R \<le> c * 2 ^ ?k" by (simp only: multiple_of_step [OF sk, symmetric])
    then have "?R div 2 ^ ?k \<le> (c * 2 ^ ?k) div 2 ^ ?k" by (rule div_le_mono)
    then have "int (?R div 2 ^ ?k) \<le> int c" by simp
    moreover have "0 \<le> \<lceil>?x\<rceil>" using \<open>0 \<le> ?x\<close> by (simp add: zero_le_ceiling)
    then have "int c = \<lceil>?x\<rceil>" by (simp add: c_def)
    ultimately show ?thesis by simp
  qed
  ultimately show ?thesis unfolding random_index_div by simp
qed

lemma random_zero_double: "random_double random_zero"
  by (simp add: random_double_def random_zero_def)

lemma random_for_draws:
  assumes "j \<le> i" and "Suc i < 2 ^ 52"
  shows "random_double (random_for i j) \<and> random_index (random_for i j) i = j"
proof -
  define n where "n = Suc i"
  define t where "t = bit_length n + 1"
  define m where "m = (j * 2 ^ t + i) div n"
  define p where "p = m * n"
  define s where "s = bit_length p - 53"
  define R where "R = round_half_even p s"
  have r: "random_for i j = \<lparr> mantissa = m, binary_places = t \<rparr>"
    by (simp add: random_for_def Let_def m_def t_def n_def)
  have n0: "0 < n" by (simp add: n_def)
  have bl: "bit_length n \<le> 52" using assms(2) unfolding n_def by (rule bit_length_le)
  have "n < 2 ^ bit_length n" by (rule bit_length_upper)
  then have nt: "2 * n < 2 ^ t" by (simp add: t_def)
  have t53: "t \<le> 53" using bl by (simp add: t_def)
  have pu: "p \<le> j * 2 ^ t + i" unfolding p_def m_def by simp
  have "(j * 2 ^ t + i) mod n < n" using n0 by simp
  moreover have "m * n + (j * 2 ^ t + i) mod n = j * 2 ^ t + i"
    unfolding m_def by (rule div_mult_mod_eq)
  ultimately have pl: "j * 2 ^ t \<le> p" unfolding p_def n_def by linarith
  have "j * 2 ^ t \<le> i * 2 ^ t" using assms(1) by simp
  moreover have "n * 2 ^ t = i * 2 ^ t + 2 ^ t" by (simp add: n_def)
  moreover have "i < 2 ^ t" using nt by (simp add: n_def)
  ultimately have pn: "p < n * 2 ^ t" using pu by linarith
  then have mt: "m < 2 ^ t" unfolding p_def using n0 by simp
  have "(2::nat) ^ t \<le> 2 ^ 53" using t53 by (rule power_increasing) simp
  with mt have m53: "m < 2 ^ 53" by linarith
  have d: "random_double (random_for i j)"
    unfolding r using mt m53 t53 by (simp add: random_double_def)
  have st: "s \<le> t"
  proof -
    have "n * 2 ^ t \<le> 2 ^ bit_length n * 2 ^ t"
      using bit_length_upper [of n] by (intro mult_le_mono1) simp
    with pn have "p < 2 ^ bit_length n * 2 ^ t" by linarith
    then have "p < 2 ^ (bit_length n + t)" by (simp only: power_add)
    then have "bit_length p \<le> bit_length n + t" by (rule bit_length_le)
    with bl show ?thesis by (simp add: s_def)
  qed
  have lo: "j * 2 ^ t \<le> R"
  proof -
    from pl have "(j * 2 ^ (t - s)) * 2 ^ s \<le> p" by (simp only: multiple_of_step [OF st, symmetric])
    then have "(j * 2 ^ (t - s)) * 2 ^ s \<le> R" unfolding R_def by (rule round_half_even_lower)
    then show ?thesis by (simp only: multiple_of_step [OF st, symmetric])
  qed
  have hi: "R < Suc j * 2 ^ t"
  proof -
    have "2 ^ s < 2 * n" unfolding s_def p_def using m53 n0 by (rule rounding_step_small)
    moreover have "2 * R \<le> 2 * p + 2 ^ s" unfolding R_def by (rule round_half_even_upper)
    ultimately have "R < j * 2 ^ t + 2 * n"
    proof -
      define A E where "A = j * 2 ^ t" and "E = (2::nat) ^ s"
      assume "2 ^ s < 2 * n" "2 * R \<le> 2 * p + 2 ^ s"
      with pu have "E < 2 * n" "2 * R \<le> 2 * p + E" "p \<le> A + i" by (simp_all add: A_def E_def)
      moreover have "n = i + 1" by (simp add: n_def)
      ultimately have "R < A + 2 * n" by linarith
      then show ?thesis by (simp add: A_def)
    qed
    with nt show ?thesis by simp
  qed
  from lo hi have "R div 2 ^ t = j"
    by (intro div_nat_eqI) (simp_all add: mult.commute)
  then have "random_index (random_for i j) i = j"
    unfolding random_index_div r by (simp add: R_def s_def p_def n_def)
  with d show ?thesis by simp
qed

lemma randomId_rounded: "randomId rounding_sample_id = 65"
  by (simp add: randomId_def double_product_def floor_quotient round_half_even_def
      rounding_sample_id_def TOTAL_POKEMON_def)

section \<open>Strings: the normalization of names\<close>

lemma js_separator: "js ''-'' = [45]" "js '' '' = [32]"
  by (simp_all add: js_def)

lemma replace_separator_absent: "45 \<notin> set s \<Longrightarrow> replace [45] [32] s = s"
  by (induction s) auto

lemma replace_separator_first:
  "45 \<notin> set a \<Longrightarrow> replace [45] [32] (a @ 45 # b) = a @ 32 # b"
  by (induction a) auto

lemma length_replace_separator: "length (replace [45] [32] s) = length s"
  by (induction s) auto

lemma capitalizeFirstLetter_Cons:
  "capitalizeFirstLetter tbl (c # cs) =
     toUpperCase_unit tbl c @ (if c = 45 then cs else replace [45] [32] cs)"
  by (simp add: capitalizeFirstLetter_def toUpperCase_def charAt_def slice_def js_separator)

lemma capitalizeFirstLetter_Nil: "capitalizeFirstLetter tbl [] = []"
  by (simp add: capitalizeFirstLetter_def toUpperCase_def charAt_def slice_def js_separator)

text \<open>
  C8, as stated, fails on a name that begins with the separator: the space that
  \<open>replace\<close> puts at index 0 is cut off by \<open>slice(1)\<close> and the original first character,
  the separator, is put back, so that no separator at all is replaced.
\<close>

theorem capitalizeFirstLetter_leading_separator:
  "capitalizeFirstLetter unicode_latin1 (js ''-a-b'') = js ''-a-b''
   \<and> 32 \<notin> set (capitalizeFirstLetter unicode_latin1 (js ''-a-b''))"
  by (simp add: capitalizeFirstLetter_Cons js_def toUpperCase_unit_def)

text \<open>
  C8, amended: for every name that does not begin with the separator (45, the hyphen),
  the result is the upper-cased first character followed by the rest of the name, in
  which the first separator is replaced by a space (32). A rest \<open>a\<close> without separator is
  unchanged; in a rest \<open>a @ 45 # b\<close> only the separator after \<open>a\<close> is replaced and \<open>b\<close>,
  later separators and lower-case words included, is unchanged. An ASCII small letter
  in first place becomes its capital. The empty name stays empty.
\<close>

theorem capitalizeFirstLetter_first_separator:
  assumes "c \<noteq> 45" and "45 \<notin> set a"
  shows "capitalizeFirstLetter tbl (c # a) = toUpperCase_unit tbl c @ a
       \<and> capitalizeFirstLetter tbl (c # a @ 45 # b) = toUpperCase_unit tbl c @ a @ 32 # b
       \<and> (97 \<le> c \<and> c \<le> 122 \<longrightarrow> toUpperCase_unit tbl c = [c - 32])
       \<and> capitalizeFirstLetter tbl [] = []"
  using assms
  by (simp add: capitalizeFirstLetter_Cons capitalizeFirstLetter_Nil replace_separator_absent
      replace_separator_first toUpperCase_unit_def)

theorem capitalizeFirstLetter_first_separator_witness:
  "(109 :: code_unit) \<noteq> 45 \<and> 45 \<notin> set (js ''r'')
   \<and> capitalizeFirstLetter unicode_latin1 (js ''mr'') = js ''Mr''
   \<and> capitalizeFirstLetter unicode_latin1 (js ''mr-mime-jr'') = js ''Mr mime-jr''
   \<and> toUpperCase_unit unicode_latin1 109 = js ''M''"
  using capitalizeFirstLetter_first_separator [of 109 "js ''r''" unicode_latin1 "js ''mime-jr''"]
  by (simp add: js_def)

text \<open>
  C10, as stated, fails where the upper case of the first character is longer than
  the character: sharp s (U+00DF, 223) becomes \<open>SS\<close>, and the result has two code units
  for the one of the input.
\<close>

theorem capitalizeFirstLetter_sharp_s:
  "capitalizeFirstLetter unicode_latin1 [223] = js ''SS''
   \<and> length (capitalizeFirstLetter unicode_latin1 [223]) \<noteq> length [223 :: code_unit]"
  by (simp add: capitalizeFirstLetter_Cons js_def toUpperCase_unit_def unicode_latin1_def)

text \<open>
  C10, amended: the normalization is total, and it keeps the length of every string
  that is empty or whose first code unit has an upper case of one code unit, which
  every ASCII character has (so every name of the catalog); the empty string maps to
  the empty string.
\<close>

theorem capitalizeFirstLetter_length:
  assumes "s = [] \<or> hd s < 128 \<or> length (tbl (hd s)) = 1"
  shows "length (capitalizeFirstLetter tbl s) = length s
       \<and> capitalizeFirstLetter tbl [] = []"
  using assms
  by (cases s)
     (auto simp add: capitalizeFirstLetter_Nil capitalizeFirstLetter_Cons
        length_replace_separator toUpperCase_unit_def)

theorem capitalizeFirstLetter_length_witness:
  "hd (js ''mr-mime'') < 128
   \<and> length (capitalizeFirstLetter unicode_latin1 (js ''mr-mime'')) = length (js ''mr-mime'')
   \<and> capitalizeFirstLetter unicode_latin1 (js ''mr-mime'') = js ''Mr mime''"
proof -
  have h: "js ''mr-mime'' = [] \<or> hd (js ''mr-mime'') < 128
           \<or> length (unicode_latin1 (hd (js ''mr-mime''))) = 1"
    by (simp add: js_def)
  have "capitalizeFirstLetter unicode_latin1 (js ''mr-mime'') = js ''Mr mime''"
    by (simp add: capitalizeFirstLetter_Cons js_def toUpperCase_unit_def)
  with capitalizeFirstLetter_length [of "js ''mr-mime''" unicode_latin1, OF h] show ?thesis
    by (simp add: js_def)
qed

section \<open>The batch fetch\<close>

lemma fetchRandomPokemon_fulfils:
  "fetchRandomPokemon tbl r server =
     Inr (case fetchRandomPokemon_try tbl r server of Inl e \<Rightarrow> None | Inr p \<Rightarrow> Some p)"
  by (simp add: fetchRandomPokemon_def split: sum.splits)

lemma Promise_all_fulfilled:
  "Promise_all (map (\<lambda>i. Inr (f i)) ks) = Inr (map f ks)"
  by (induction ks) auto

lemma non_null_results:
  "map the (filter (\<lambda>p. p \<noteq> None)
      (map (\<lambda>i. case g i of Inl e \<Rightarrow> None | Inr p \<Rightarrow> Some p) ks)) =
   concat (map (\<lambda>i. case g i of Inl e \<Rightarrow> [] | Inr p \<Rightarrow> [p]) ks)"
  by (induction ks) (auto split: sum.splits)

lemma fetchMultipleRandomPokemon_try_eq:
  "fetchMultipleRandomPokemon_try tbl cnt net = Inr (successful_fetches tbl cnt net)"
  unfolding fetchMultipleRandomPokemon_try_def successful_fetches_def Let_def
    fetchRandomPokemon_fulfils Promise_all_fulfilled
  by (simp add: non_null_results del: not_None_eq)

lemma fetchMultipleRandomPokemon_eq:
  "fetchMultipleRandomPokemon tbl cnt net = Inr (successful_fetches tbl cnt net)"
  by (simp add: fetchMultipleRandomPokemon_def fetchMultipleRandomPokemon_try_eq)

lemma length_concat_le:
  "(\<And>i. length (f i) \<le> 1) \<Longrightarrow> length (concat (map f ks)) \<le> length ks"
proof (induction ks)
  case Nil
  then show ?case by simp
next
  case (Cons k ks)
  have "length (f k) \<le> 1" by (rule Cons.prems)
  moreover have "length (concat (map f ks)) \<le> length ks"
    by (rule Cons.IH) (rule Cons.prems)
  ultimately show ?case by simp
qed

lemma length_successful_fetches: "length (successful_fetches tbl cnt net) \<le> cnt"
proof -
  have "length (successful_fetches tbl cnt net) \<le> length [0..<cnt]"
    unfolding successful_fetches_def
    by (rule length_concat_le) (simp split: sum.splits)
  then show ?thesis by simp
qed

lemma successful_fetches_none:
  "(\<forall>i<cnt. \<exists>e. fetchRandomPokemon_try tbl (fst (net i)) (snd (net i)) = Inl e)
   \<Longrightarrow> successful_fetches tbl cnt net = []"
  by (auto simp add: successful_fetches_def)

text \<open>
  C9: for every count and every behaviour of the network, the batch fetch makes the
  calls of index \<open>0, ..., count - 1\<close>, and once all have settled it returns exactly the
  results of the calls that succeeded, in the order of the calls (\<open>successful_fetches\<close>);
  their number is between 0 and \<open>count\<close>; it never rejects; and when every call fails
  it returns the empty list.
\<close>

theorem fetchMultipleRandomPokemon_successes:
  "fetchMultipleRandomPokemon tbl cnt net = Inr (successful_fetches tbl cnt net)
   \<and> length (successful_fetches tbl cnt net) \<le> cnt
   \<and> (\<forall>e. fetchMultipleRandomPokemon tbl cnt net \<noteq> Inl e)
   \<and> ((\<forall>i<cnt. \<exists>e. fetchRandomPokemon_try tbl (fst (net i)) (snd (net i)) = Inl e)
        \<longrightarrow> fetchMultipleRandomPokemon tbl cnt net = Inr [])"
  by (simp add: fetchMultipleRandomPokemon_eq length_successful_fetches successful_fetches_none)

lemma upt_6: "[0..<6] = [0, 1, 2, 3, 4, 5]"
  by code_simp

lemma failing_fetch:
  "fetchRandomPokemon_try tbl (fst (failing_net i)) (snd (failing_net i)) = Inl FetchRejected"
  by (simp add: failing_net_def fetchRandomPokemon_try_def)

lemma successful_fetches_failing_net: "successful_fetches tbl cnt failing_net = []"
  by (simp add: successful_fetches_def failing_fetch)

lemma pid_five_of_six: "map pid (successful_fetches unicode_latin1 6 five_of_six) = [1, 2, 3, 4, 5]"
  by code_simp

theorem fetchMultipleRandomPokemon_successes_witness:
  "fetchRandomPokemon_try unicode_latin1 (fst (failing_net 0)) (snd (failing_net 0)) = Inl FetchRejected
   \<and> fetchRandomPokemon_try unicode_latin1 (fst (failing_net 1)) (snd (failing_net 1)) = Inl FetchRejected
   \<and> fetchMultipleRandomPokemon unicode_latin1 2 failing_net = Inr []
   \<and> length (successful_fetches unicode_latin1 6 five_of_six) \<le> 6
   \<and> map pid (successful_fetches unicode_latin1 6 five_of_six) = [1, 2, 3, 4, 5]"
proof -
  have h: "\<forall>i<2. \<exists>e. fetchRandomPokemon_try unicode_latin1 (fst (failing_net i))
                         (snd (failing_net i)) = Inl e"
    by (simp add: failing_fetch)
  have "length (successful_fetches unicode_latin1 6 five_of_six) \<le> 6"
    using fetchMultipleRandomPokemon_successes [of unicode_latin1 6 five_of_six] by blast
  moreover have "fetchMultipleRandomPokemon unicode_latin1 2 failing_net = Inr []"
    using fetchMultipleRandomPokemon_successes [of unicode_latin1 2 failing_net] h by blast
  ultimately show ?thesis using failing_fetch pid_five_of_six by blast
qed

section \<open>Pairs and shuffle\<close>

lemma length_exchange: "length (exchange i j a) = length a"
  by (simp add: exchange_def)

lemma length_swap: "length (swap i j a) = length a"
  by (simp add: swap_def)

lemma swap_exchange: "i < length a \<Longrightarrow> j < length a \<Longrightarrow> swap i j a = exchange i j a"
  by (rule nth_equalityI) (auto simp add: swap_def exchange_def nth_list_update)

lemma mset_swap_in: "i < length a \<Longrightarrow> j < length a \<Longrightarrow> mset (swap i j a) = mset a"
  by (simp add: swap_def mset_swap)

lemma length_shuffle_loop: "length (shuffle_loop rnd n a) = length a"
  by (induction n arbitrary: a) (simp_all add: Let_def length_swap)

lemma length_shuffleArray: "length (shuffleArray rnd a) = length a"
  by (simp add: shuffleArray_def length_shuffle_loop)

lemma mset_shuffle_loop:
  "n < length a \<Longrightarrow> \<forall>i\<le>n. random_double (rnd i) \<Longrightarrow> mset (shuffle_loop rnd n a) = mset a"
proof (induction n arbitrary: a)
  case 0
  then show ?case by simp
next
  case (Suc n)
  let ?j = "random_index (rnd (Suc n)) (Suc n)"
  have "?j \<le> Suc n" using Suc.prems(2) by (simp add: random_index_le)
  with Suc.prems(1) have m: "mset (swap (Suc n) ?j a) = mset a"
    by (intro mset_swap_in) auto
  have "n < length (swap (Suc n) ?j a)" using Suc.prems(1) by (simp add: length_swap)
  moreover have "\<forall>i\<le>n. random_double (rnd i)" using Suc.prems(2) by simp
  ultimately have "mset (shuffle_loop rnd n (swap (Suc n) ?j a)) = mset (swap (Suc n) ?j a)"
    by (rule Suc.IH)
  with m show ?case by (simp add: Let_def)
qed

lemma mset_shuffleArray:
  assumes "\<forall>i<length a. random_double (rnd i)"
  shows "mset (shuffleArray rnd a) = mset a"
proof (cases a)
  case Nil
  then show ?thesis by (simp add: shuffleArray_def)
next
  case (Cons x xs)
  then have "length a - 1 < length a" by simp
  moreover have "\<forall>i\<le>length a - 1. random_double (rnd i)" using assms Cons by simp
  ultimately show ?thesis unfolding shuffleArray_def by (rule mset_shuffle_loop)
qed

lemma shuffle_loop_by_spec:
  "n < length a \<Longrightarrow> \<forall>i\<le>n. random_double (rnd i) \<Longrightarrow>
    shuffle_loop rnd n a =
      fold (\<lambda>i a. exchange i (random_index (rnd i) i) a) (rev [1..<Suc n]) a"
proof (induction n arbitrary: a)
  case 0
  then show ?case by simp
next
  case (Suc n)
  let ?j = "random_index (rnd (Suc n)) (Suc n)"
  have "?j \<le> Suc n" using Suc.prems(2) by (simp add: random_index_le)
  with Suc.prems(1) have e: "swap (Suc n) ?j a = exchange (Suc n) ?j a"
    by (intro swap_exchange) auto
  have "n < length (exchange (Suc n) ?j a)" using Suc.prems(1) by (simp add: length_exchange)
  moreover have "\<forall>i\<le>n. random_double (rnd i)" using Suc.prems(2) by simp
  ultimately have "shuffle_loop rnd n (exchange (Suc n) ?j a) =
      fold (\<lambda>i a. exchange i (random_index (rnd i) i) a) (rev [1..<Suc n]) (exchange (Suc n) ?j a)"
    by (rule Suc.IH)
  with e show ?case by (simp add: Let_def)
qed

lemma shuffleArray_by_spec:
  assumes "\<forall>i<length a. random_double (rnd i)"
  shows "shuffleArray rnd a = shuffle_by_spec (\<lambda>i. random_index (rnd i) i) a"
proof (cases a)
  case Nil
  then show ?thesis by (simp add: shuffleArray_def shuffle_by_spec_def)
next
  case (Cons x xs)
  then have l: "length a - 1 < length a" "Suc (length a - 1) = length a" by simp_all
  have "\<forall>i\<le>length a - 1. random_double (rnd i)" using assms Cons by simp
  from shuffle_loop_by_spec [OF l(1) this] show ?thesis
    by (simp only: shuffleArray_def shuffle_by_spec_def l(2))
qed

lemma shuffle_by_spec_cong:
  assumes "\<And>i. 1 \<le> i \<Longrightarrow> i < length xs \<Longrightarrow> f i = g i"
  shows "shuffle_by_spec f xs = shuffle_by_spec g xs"
  unfolding shuffle_by_spec_def
  by (rule fold_cong) (auto simp add: assms)

lemma shuffle_by_spec_realised:
  assumes "length xs \<le> 2 ^ 32" and "\<forall>i<length xs. pick i \<le> i"
  shows "(\<forall>i<length xs. random_double (random_for i (pick i)))
       \<and> shuffleArray (\<lambda>i. random_for i (pick i)) xs = shuffle_by_spec pick xs"
proof -
  have d: "random_double (random_for i (pick i)) \<and> random_index (random_for i (pick i)) i = pick i"
    if "i < length xs" for i
  proof -
    have "(2::nat) ^ 32 < 2 ^ 52" by simp
    with that assms(1) have "Suc i < 2 ^ 52" by linarith
    moreover have "pick i \<le> i" using that assms(2) by simp
    ultimately show ?thesis by (intro random_for_draws)
  qed
  then have "\<forall>i<length xs. random_double (random_for i (pick i))" by simp
  moreover from this have "shuffleArray (\<lambda>i. random_for i (pick i)) xs =
      shuffle_by_spec (\<lambda>i. random_index (random_for i (pick i)) i) xs"
    by (rule shuffleArray_by_spec)
  moreover have "shuffle_by_spec (\<lambda>i. random_index (random_for i (pick i)) i) xs =
      shuffle_by_spec pick xs"
    by (rule shuffle_by_spec_cong) (simp add: d)
  ultimately show ?thesis by simp
qed

text \<open>
  C7: for every input sequence and every run of \<open>Math.random()\<close> (doubles in [0, 1)), the
  shuffle returns a permutation of its input, so the multiset of the identifiers is the
  same before and after. It is the loop of the specification: the index \<open>i\<close> goes from
  the last one down to 1, and the element \<open>i\<close> changes places with the element at the
  index drawn. The index drawn is the whole part of the double product
  \<open>Math.random() * (i + 1)\<close>: it lies in \<open>0..i\<close>, and between the floor and the ceiling of
  the exact product. And the random source reaches every index in \<open>0..i\<close>: whatever the
  loop of the specification picks, on an array of at most \<open>2 ^ 32\<close> elements, there are
  values of \<open>Math.random()\<close> on which the program does the same.
\<close>

theorem shuffleArray_permutation:
  assumes "\<forall>i. random_double (rnd i)"
  shows "mset (shuffleArray rnd xs) = mset xs
       \<and> mset (map pid (shuffleArray rnd ps)) = mset (map pid ps)
       \<and> shuffleArray rnd xs = shuffle_by_spec (\<lambda>i. random_index (rnd i) i) xs
       \<and> (\<forall>i. random_index (rnd i) i \<le> i)
       \<and> (\<forall>i < 2 ^ 53. \<lfloor>value_of (rnd i) * of_nat (i + 1)\<rfloor> \<le> int (random_index (rnd i) i)
                       \<and> int (random_index (rnd i) i) \<le> \<lceil>value_of (rnd i) * of_nat (i + 1)\<rceil>)
       \<and> (length xs \<le> 2 ^ 32 \<and> (\<forall>i < length xs. pick i \<le> i) \<longrightarrow>
             (\<forall>i < length xs. random_double (random_for i (pick i)))
           \<and> shuffleArray (\<lambda>i. random_for i (pick i)) xs = shuffle_by_spec pick xs)"
proof -
  have 1: "mset (shuffleArray rnd xs) = mset xs"
    by (rule mset_shuffleArray) (simp add: assms)
  have "mset (shuffleArray rnd ps) = mset ps"
    by (rule mset_shuffleArray) (simp add: assms)
  then have "image_mset pid (mset (shuffleArray rnd ps)) = image_mset pid (mset ps)" by simp
  then have 2: "mset (map pid (shuffleArray rnd ps)) = mset (map pid ps)" by simp
  have 3: "shuffleArray rnd xs = shuffle_by_spec (\<lambda>i. random_index (rnd i) i) xs"
    by (rule shuffleArray_by_spec) (simp add: assms)
  have 4: "\<forall>i. random_index (rnd i) i \<le> i"
    using assms by (simp add: random_index_le)
  have 5: "\<forall>i < 2 ^ 53. \<lfloor>value_of (rnd i) * of_nat (i + 1)\<rfloor> \<le> int (random_index (rnd i) i)
                       \<and> int (random_index (rnd i) i) \<le> \<lceil>value_of (rnd i) * of_nat (i + 1)\<rceil>"
  proof (intro allI impI)
    fix i :: nat
    assume "i < 2 ^ 53"
    with assms show "\<lfloor>value_of (rnd i) * of_nat (i + 1)\<rfloor> \<le> int (random_index (rnd i) i)
        \<and> int (random_index (rnd i) i) \<le> \<lceil>value_of (rnd i) * of_nat (i + 1)\<rceil>"
      by (intro random_index_between) simp_all
  qed
  have 6: "length xs \<le> 2 ^ 32 \<and> (\<forall>i < length xs. pick i \<le> i) \<longrightarrow>
             (\<forall>i < length xs. random_double (random_for i (pick i)))
           \<and> shuffleArray (\<lambda>i. random_for i (pick i)) xs = shuffle_by_spec pick xs"
    using shuffle_by_spec_realised [of xs pick] by blast
  from 1 2 3 4 5 6 show ?thesis by blast
qed

lemma shuffle_loop_numeral:
  "shuffle_loop rnd (numeral k) a =
     shuffle_loop rnd (pred_numeral k) (swap (numeral k) (random_index (rnd (numeral k)) (numeral k)) a)"
  "shuffle_loop rnd (Suc 0) a = swap 1 (random_index (rnd 1) 1) a"
  by (simp_all add: numeral_eq_Suc Let_def)

lemma rounding_sample_double: "\<forall>i::nat. random_double ((\<lambda>i. rounding_sample) i)"
  by (simp add: random_double_def rounding_sample_def)

theorem shuffleArray_permutation_witness:
  "random_double rounding_sample
   \<and> shuffleArray (\<lambda>i. rounding_sample) [1, 2, 3, 4, 5, 6 :: nat] = [1, 2, 3, 4, 5, 6]
   \<and> mset (shuffleArray (\<lambda>i. rounding_sample) [1, 2, 3, 4, 5, 6 :: nat]) = mset [1, 2, 3, 4, 5, 6]
   \<and> shuffle_by_spec (\<lambda>i. random_index rounding_sample i) [1, 2, 3, 4, 5, 6 :: nat]
       = [1, 2, 3, 4, 5, 6]
   \<and> random_index rounding_sample 5 = 5
   \<and> \<lfloor>value_of rounding_sample * of_nat (5 + 1)\<rfloor> = 4
   \<and> \<lceil>value_of rounding_sample * of_nat (5 + 1)\<rceil> = 5
   \<and> random_index \<lparr> mantissa = 1, binary_places = 2 \<rparr> 7 = 2
   \<and> random_index \<lparr> mantissa = 3, binary_places = 2 \<rparr> 7 = 6
   \<and> random_index random_zero 7 = 0
   \<and> length [10, 20, 30, 40 :: nat] \<le> 2 ^ 32
   \<and> random_double (random_for 3 (3 div 2))
   \<and> shuffleArray (\<lambda>i. random_for i (i div 2)) [10, 20, 30, 40 :: nat] = [30, 10, 40, 20]
   \<and> shuffle_by_spec (\<lambda>i. i div 2) [10, 20, 30, 40 :: nat] = [30, 10, 40, 20]"
proof -
  note t = shuffleArray_permutation [OF rounding_sample_double,
      of "[1, 2, 3, 4, 5, 6 :: nat]" "[]" "\<lambda>i. i div 2"]
  note u = shuffleArray_permutation [OF rounding_sample_double,
      of "[10, 20, 30, 40 :: nat]" "[]" "\<lambda>i. i div 2"]
  have v: "shuffleArray (\<lambda>i. rounding_sample) [1, 2, 3, 4, 5, 6 :: nat] = [1, 2, 3, 4, 5, 6]"
    by (simp add: shuffleArray_def shuffle_loop_numeral swap_def random_index_div
        round_half_even_def rounding_sample_def)
  have r: "random_index rounding_sample 5 = 5"
    "\<lfloor>value_of rounding_sample * of_nat (5 + 1)\<rfloor> = 4"
    "\<lceil>value_of rounding_sample * of_nat (5 + 1)\<rceil> = 5"
    "random_double rounding_sample"
    by (simp_all add: random_index_div round_half_even_def rounding_sample_def value_of_def
        random_double_def floor_eq_iff ceiling_eq_iff)
  have q: "random_index \<lparr> mantissa = 1, binary_places = 2 \<rparr> 7 = 2"
    "random_index \<lparr> mantissa = 3, binary_places = 2 \<rparr> 7 = 6"
    "random_index random_zero 7 = 0"
    "shuffle_by_spec (\<lambda>i. i div 2) [10, 20, 30, 40 :: nat] = [30, 10, 40, 20]"
    by code_simp+
  have p: "length [10, 20, 30, 40 :: nat] \<le> 2 ^ 32"
    "\<forall>i < length [10, 20, 30, 40 :: nat]. i div 2 \<le> i"
    by simp_all
  from t have 1: "mset (shuffleArray (\<lambda>i. rounding_sample) [1, 2, 3, 4, 5, 6 :: nat])
      = mset [1, 2, 3, 4, 5, 6]"
    and 2: "shuffleArray (\<lambda>i. rounding_sample) [1, 2, 3, 4, 5, 6 :: nat] =
      shuffle_by_spec (\<lambda>i. random_index rounding_sample i) [1, 2, 3, 4, 5, 6]"
    by blast+
  from u p have 3: "\<forall>i < length [10, 20, 30, 40 :: nat]. random_double (random_for i (i div 2))"
    and 4: "shuffleArray (\<lambda>i. random_for i (i div 2)) [10, 20, 30, 40 :: nat]
      = shuffle_by_spec (\<lambda>i. i div 2) [10, 20, 30, 40]"
    by blast+
  have "(3::nat) < length [10, 20, 30, 40 :: nat]" by simp
  with 3 have 5: "random_double (random_for 3 (3 div 2))" by blast
  from v r q p(1) 1 2 4 5 show ?thesis by simp
qed

lemma mset_pokemonPairs: "mset (pokemonPairs ps) = mset ps + mset ps"
  by (induction ps) (simp_all add: pokemonPairs_def)

lemma length_pokemonPairs: "length (pokemonPairs ps) = 2 * length ps"
  by (induction ps) (simp_all add: pokemonPairs_def)

lemma length_filter_count: "length (filter (\<lambda>q. f q = x) xs) = count (mset (map f xs)) x"
  by (induction xs) auto

text \<open>
  C6: for every list of \<open>N\<close> Pokemon with distinct identifiers (every \<open>N\<close>, so every \<open>N\<close>
  from 1 to \<open>CARD_COUNT / 2\<close>), the shuffled pairs are \<open>2 * N\<close> elements, and the identifier
  of each input Pokemon occurs exactly twice among them.
\<close>

theorem shuffledPairs_two_of_each:
  assumes "\<forall>i. random_double (rnd i)" and "distinct (map pid ps)"
  shows "length (shuffledPairs rnd ps) = 2 * length ps
       \<and> (\<forall>p \<in> set ps. length (filter (\<lambda>q. pid q = pid p) (shuffledPairs rnd ps)) = 2)"
proof -
  have "mset (shuffleArray rnd (pokemonPairs ps)) = mset (pokemonPairs ps)"
    by (rule mset_shuffleArray) (simp add: assms(1))
  then have "mset (shuffledPairs rnd ps) = mset ps + mset ps"
    by (simp add: shuffledPairs_def mset_pokemonPairs)
  then have m: "mset (map pid (shuffledPairs rnd ps)) = mset (map pid ps) + mset (map pid ps)"
    by (metis image_mset_union mset_map)
  have c: "count (mset (map pid ps)) (pid p) = 1" if "p \<in> set ps" for p
    using that assms(2) by (simp add: distinct_count_atmost_1)
  have "length (filter (\<lambda>q. pid q = pid p) (shuffledPairs rnd ps)) = 2" if "p \<in> set ps" for p
    unfolding length_filter_count m using c [OF that] by simp
  moreover have "length (shuffledPairs rnd ps) = 2 * length ps"
    by (simp add: shuffledPairs_def length_shuffleArray length_pokemonPairs)
  ultimately show ?thesis by blast
qed

lemma quarter_double: "\<forall>i::nat. random_double ((\<lambda>i. \<lparr> mantissa = 1, binary_places = 2 \<rparr>) i)"
  by (simp add: random_double_def)

lemma pid_two: "map pid (successful_fetches unicode_latin1 2 five_of_six) = [1, 2]"
  by code_simp

theorem shuffledPairs_two_of_each_witness:
  "random_double \<lparr> mantissa = 1, binary_places = 2 \<rparr>
   \<and> distinct (map pid (successful_fetches unicode_latin1 2 five_of_six))
   \<and> length (shuffledPairs (\<lambda>i. \<lparr> mantissa = 1, binary_places = 2 \<rparr>)
        (successful_fetches unicode_latin1 2 five_of_six)) = 4
   \<and> length (filter (\<lambda>q. pid q = 1)
        (shuffledPairs (\<lambda>i. \<lparr> mantissa = 1, binary_places = 2 \<rparr>)
          (successful_fetches unicode_latin1 2 five_of_six))) = 2
   \<and> length (filter (\<lambda>q. pid q = 2)
        (shuffledPairs (\<lambda>i. \<lparr> mantissa = 1, binary_places = 2 \<rparr>)
          (successful_fetches unicode_latin1 2 five_of_six))) = 2"
proof -
  let ?ps = "successful_fetches unicode_latin1 2 five_of_six"
  let ?rnd = "\<lambda>i::nat. \<lparr> mantissa = 1, binary_places = 2 \<rparr>"
  have d: "distinct (map pid ?ps)" by (simp add: pid_two)
  obtain p q where pq: "?ps = [p, q]" "pid p = 1" "pid q = 2"
    using pid_two by auto
  note t = shuffledPairs_two_of_each [OF quarter_double d]
  from t have "length (shuffledPairs ?rnd ?ps) = 2 * length ?ps" by blast
  moreover from t have "\<forall>x \<in> set ?ps. length (filter (\<lambda>q. pid q = pid x) (shuffledPairs ?rnd ?ps)) = 2"
    by blast
  moreover have "random_double \<lparr> mantissa = 1, binary_places = 2 \<rparr>"
    by (simp add: random_double_def)
  ultimately show ?thesis using d pq by simp
qed

section \<open>Clicks\<close>

lemma visibility_simps:
  "visibility_of c = Hidden \<longleftrightarrow> \<not> flipped c \<and> \<not> matched c"
  "visibility_of c = Revealed \<longleftrightarrow> flipped c \<and> \<not> matched c"
  "visibility_of c = Matched \<longleftrightarrow> matched c"
  by (simp_all add: visibility_of_def)

text \<open>
  C5: a click on a slot that is revealed or matched, and any click while the lock of
  the mismatch resolution is on, leaves the whole state as it is, so the visibilities,
  the pending selections and the counter; and clicking a slot a second time changes
  nothing after the first click, whatever the state, so the same slot is never both
  picks.
\<close>

theorem handleCardClick_ignored:
  "(visibility_of (cards s ! i) = Revealed \<or> visibility_of (cards s ! i) = Matched
      \<longrightarrow> handleCardClick (Some i) s = s)
 \<and> (isProcessingPair s \<longrightarrow> handleCardClick t s = s)
 \<and> handleCardClick (Some i) (handleCardClick (Some i) s) = handleCardClick (Some i) s"
proof -
  have 1: "handleCardClick (Some i) s = s" if "flipped (cards s ! i) \<or> matched (cards s ! i)" for s
    using that by (simp add: handleCardClick_def closest_card_def split: option.splits)
  have 2: "handleCardClick t s = s" if "isProcessingPair s"
    using that by (simp add: handleCardClick_def closest_card_def split: option.splits)
  have 3: "handleCardClick (Some i) (handleCardClick (Some i) s) = handleCardClick (Some i) s"
  proof (cases "handleCardClick (Some i) s = s")
    case True
    then show ?thesis by simp
  next
    case False
    then have "flipped (cards (handleCardClick (Some i) s) ! i)"
      by (auto simp add: handleCardClick_def closest_card_def update_card_def checkForMatch_def
          handleMatch_def handleNonMatch_def resetSelection_def Let_def nth_list_update
          split: option.splits if_splits)
    then show ?thesis by (simp add: 1)
  qed
  from 1 [of s] 2 3 show ?thesis by (auto simp add: visibility_simps)
qed

theorem handleCardClick_ignored_witness:
  "visibility_of (cards sample_first_pick ! 1) = Revealed
   \<and> handleCardClick (Some 1) sample_first_pick = sample_first_pick
   \<and> isProcessingPair sample_locked
   \<and> handleCardClick (Some 5) sample_locked = sample_locked"
proof -
  have h: "visibility_of (cards sample_first_pick ! 1) = Revealed" "isProcessingPair sample_locked"
    by code_simp+
  with handleCardClick_ignored [of sample_first_pick 1 "Some 5"]
    handleCardClick_ignored [of sample_locked 1 "Some 5"]
  show ?thesis by blast
qed

text \<open>
  C3: a first slot \<open>a\<close> is pending and revealed, and a second, distinct, hidden slot \<open>b\<close> is
  clicked with the lock off; both are bound, to the identifiers \<open>x\<close> and \<open>y\<close>. If \<open>x = y\<close>,
  both slots are matched after the click, the counter is one more, and nothing is
  pending. If \<open>x \<noteq> y\<close>, the click sets the lock and leaves both slots revealed, every
  further click is ignored, and when the delay runs out both slots are hidden, nothing
  is pending, the lock is off and the counter is what it was.
\<close>

theorem second_pick_resolves:
  assumes "firstSelectedCard s = Some a" and "a < length (cards s)" and "b < length (cards s)"
    and "a \<noteq> b"
    and "visibility_of (cards s ! a) = Revealed" and "visibility_of (cards s ! b) = Hidden"
    and "\<not> isProcessingPair s"
    and "map_option pid (dataset_pokemon (cards s ! a)) = Some x"
    and "map_option pid (dataset_pokemon (cards s ! b)) = Some y"
  shows "(x = y \<longrightarrow>
           visibility_of (cards (handleCardClick (Some b) s) ! a) = Matched
         \<and> visibility_of (cards (handleCardClick (Some b) s) ! b) = Matched
         \<and> matchedPairs (handleCardClick (Some b) s) = matchedPairs s + 1
         \<and> firstSelectedCard (handleCardClick (Some b) s) = None
         \<and> secondSelectedCard (handleCardClick (Some b) s) = None
         \<and> \<not> isProcessingPair (handleCardClick (Some b) s))
       \<and> (x \<noteq> y \<longrightarrow>
           isProcessingPair (handleCardClick (Some b) s)
         \<and> enabled MismatchTimeout (handleCardClick (Some b) s)
         \<and> visibility_of (cards (handleCardClick (Some b) s) ! a) = Revealed
         \<and> visibility_of (cards (handleCardClick (Some b) s) ! b) = Revealed
         \<and> handleCardClick t (handleCardClick (Some b) s) = handleCardClick (Some b) s
         \<and> visibility_of (cards (step tbl MismatchTimeout (handleCardClick (Some b) s)) ! a) = Hidden
         \<and> visibility_of (cards (step tbl MismatchTimeout (handleCardClick (Some b) s)) ! b) = Hidden
         \<and> firstSelectedCard (step tbl MismatchTimeout (handleCardClick (Some b) s)) = None
         \<and> secondSelectedCard (step tbl MismatchTimeout (handleCardClick (Some b) s)) = None
         \<and> \<not> isProcessingPair (step tbl MismatchTimeout (handleCardClick (Some b) s))
         \<and> matchedPairs (step tbl MismatchTimeout (handleCardClick (Some b) s)) = matchedPairs s)"
proof -
  from assms(8,9) obtain p q where
    pq: "dataset_pokemon (cards s ! a) = Some p" "dataset_pokemon (cards s ! b) = Some q"
      "pid p = x" "pid q = y"
    by auto
  show ?thesis
  proof (cases "x = y")
    case True
    with assms(1-7) pq show ?thesis
      by (simp add: handleCardClick_def closest_card_def update_card_def checkForMatch_def
          handleMatch_def resetSelection_def Let_def visibility_simps)
  next
    case False
    let ?s = "handleCardClick (Some b) s"
    have e: "?s = s\<lparr>cards := (cards s)[b := (cards s ! b)\<lparr>flipped := True\<rparr>],
                    secondSelectedCard := Some b, isProcessingPair := True,
                    mismatchTimers := mismatchTimers s + 1\<rparr>"
      using False assms(1-7) pq
      by (simp add: handleCardClick_def closest_card_def update_card_def checkForMatch_def
          handleNonMatch_def Let_def visibility_simps)
    have l: "handleCardClick t ?s = ?s"
      unfolding e by (simp add: handleCardClick_def closest_card_def split: option.splits)
    from False assms(1-7) l show ?thesis
      unfolding e
      by (simp add: flip_back_def update_card_def resetSelection_def Let_def visibility_simps)
  qed
qed

theorem second_pick_resolves_witness:
  "firstSelectedCard sample_first_pick = Some 1
   \<and> 1 < length (cards sample_first_pick) \<and> 2 < length (cards sample_first_pick)
   \<and> 3 < length (cards sample_first_pick)
   \<and> visibility_of (cards sample_first_pick ! 1) = Revealed
   \<and> visibility_of (cards sample_first_pick ! 2) = Hidden
   \<and> visibility_of (cards sample_first_pick ! 3) = Hidden
   \<and> \<not> isProcessingPair sample_first_pick
   \<and> map_option pid (dataset_pokemon (cards sample_first_pick ! 1)) = Some 2
   \<and> map_option pid (dataset_pokemon (cards sample_first_pick ! 2)) = Some 2
   \<and> map_option pid (dataset_pokemon (cards sample_first_pick ! 3)) = Some 3
   \<and> visibility_of (cards (handleCardClick (Some 2) sample_first_pick) ! 1) = Matched
   \<and> visibility_of (cards (handleCardClick (Some 2) sample_first_pick) ! 2) = Matched
   \<and> matchedPairs (handleCardClick (Some 2) sample_first_pick) = matchedPairs sample_first_pick + 1
   \<and> isProcessingPair sample_locked
   \<and> visibility_of (cards (step unicode_latin1 MismatchTimeout sample_locked) ! 1) = Hidden
   \<and> visibility_of (cards (step unicode_latin1 MismatchTimeout sample_locked) ! 3) = Hidden
   \<and> \<not> isProcessingPair (step unicode_latin1 MismatchTimeout sample_locked)
   \<and> matchedPairs (step unicode_latin1 MismatchTimeout sample_locked) = matchedPairs sample_first_pick"
proof -
  have h: "firstSelectedCard sample_first_pick = Some 1"
    "1 < length (cards sample_first_pick)" "2 < length (cards sample_first_pick)"
    "3 < length (cards sample_first_pick)"
    "visibility_of (cards sample_first_pick ! 1) = Revealed"
    "visibility_of (cards sample_first_pick ! 2) = Hidden"
    "visibility_of (cards sample_first_pick ! 3) = Hidden"
    "\<not> isProcessingPair sample_first_pick"
    "map_option pid (dataset_pokemon (cards sample_first_pick ! 1)) = Some 2"
    "map_option pid (dataset_pokemon (cards sample_first_pick ! 2)) = Some 2"
    "map_option pid (dataset_pokemon (cards sample_first_pick ! 3)) = Some 3"
    by code_simp+
  have n: "(1::nat) \<noteq> 2" "(1::nat) \<noteq> 3" "(2::int) \<noteq> 3" by simp_all
  note m = second_pick_resolves [OF h(1) h(2) h(3) n(1) h(5) h(6) h(8) h(9) h(10)]
  note d = second_pick_resolves [OF h(1) h(2) h(4) n(2) h(5) h(7) h(8) h(9) h(11),
      of "Some 5" unicode_latin1]
  from m d n(3) h show ?thesis
    unfolding sample_locked_def by simp
qed

section \<open>Seeding and unbound slots\<close>

lemma fold_assign:
  "length (fold (\<lambda>i cs. if i < length cs then cs[i := assignPokemonToCard (cs ! i) (sh ! i)] else cs)
             [0..<n] cs) = length cs
   \<and> (\<forall>i<length cs.
        fold (\<lambda>i cs. if i < length cs then cs[i := assignPokemonToCard (cs ! i) (sh ! i)] else cs)
             [0..<n] cs ! i =
        (if i < n then assignPokemonToCard (cs ! i) (sh ! i) else cs ! i))"
proof (induction n)
  case 0
  then show ?case by simp
next
  case (Suc n)
  then show ?case by (auto simp add: nth_list_update)
qed

lemma nth_assign_cards:
  "i < length cs \<Longrightarrow>
   assign_cards sh cs ! i =
     (if i < min CARD_COUNT (length sh) then assignPokemonToCard (cs ! i) (sh ! i) else cs ! i)"
  using fold_assign [of sh "min CARD_COUNT (length sh)" cs] by (simp add: assign_cards_def)

lemma length_shuffledPairs: "length (shuffledPairs rnd ps) = 2 * length ps"
  by (simp add: shuffledPairs_def length_shuffleArray length_pokemonPairs)

lemma sample_ids:
  "map (map_option pid \<circ> dataset_pokemon) (cards sample_session) =
     [Some 1, Some 2, Some 2, Some 3, Some 3, Some 4, Some 4, Some 5, Some 5, Some 1, None, None]"
  by code_simp

text \<open>
  C2, as stated, fails on the sample session, where five Pokemon were fetched and the
  slots 10 and 11 are unbound: a click on the hidden slot 10 reveals it and records it
  as the pending selection.
\<close>

theorem unbound_slot_selectable:
  "length (successful_fetches unicode_latin1 6 five_of_six) = 5
   \<and> dataset_pokemon (cards sample_session ! 10) = None
   \<and> visibility_of (cards sample_session ! 10) = Hidden
   \<and> firstSelectedCard sample_session = None
   \<and> visibility_of (cards (handleCardClick (Some 10) sample_session) ! 10) = Revealed
   \<and> firstSelectedCard (handleCardClick (Some 10) sample_session) = Some 10"
  by code_simp

text \<open>
  C2, amended: a deal with \<open>n\<close> fetched Pokemon (\<open>n \<le> 6\<close>) binds exactly the slots below
  \<open>2 * n\<close>, to the shuffled pairs in order, and leaves the binding of every other slot as
  it was. An unbound slot is selectable like any other: a click on it, hidden, with
  the lock off and nothing pending, reveals it and makes it the pending selection. But
  a pair with an unbound slot never matches: when the second pick is compared and one
  of the two slots is unbound, the counter and the matched flags stay as they were and
  the pending selections are cleared, without the lock.
\<close>

theorem unbound_slot_compared:
  assumes "length (cards s) = CARD_COUNT" and "i < CARD_COUNT"
  shows "dataset_pokemon (cards (fetchAndAssignPokemon tbl net rnd s) ! i) =
           (if i < 2 * length (successful_fetches tbl 6 net)
            then Some (shuffledPairs rnd (successful_fetches tbl 6 net) ! i)
            else dataset_pokemon (cards s ! i))
       \<and> (dataset_pokemon (cards s ! i) = None \<and> visibility_of (cards s ! i) = Hidden
            \<and> \<not> isProcessingPair s \<and> firstSelectedCard s = None \<longrightarrow>
              visibility_of (cards (handleCardClick (Some i) s) ! i) = Revealed
            \<and> firstSelectedCard (handleCardClick (Some i) s) = Some i)
       \<and> (firstSelectedCard s = Some a \<and> a \<noteq> i \<and> visibility_of (cards s ! i) = Hidden
            \<and> \<not> isProcessingPair s
            \<and> (dataset_pokemon (cards s ! a) = None \<or> dataset_pokemon (cards s ! i) = None) \<longrightarrow>
              matchedPairs (handleCardClick (Some i) s) = matchedPairs s
            \<and> map matched (cards (handleCardClick (Some i) s)) = map matched (cards s)
            \<and> firstSelectedCard (handleCardClick (Some i) s) = None
            \<and> secondSelectedCard (handleCardClick (Some i) s) = None
            \<and> \<not> isProcessingPair (handleCardClick (Some i) s))"
proof -
  let ?l = "successful_fetches tbl 6 net"
  have "length ?l \<le> 6" by (rule length_successful_fetches)
  then have m: "min CARD_COUNT (length (shuffledPairs rnd ?l)) = 2 * length ?l"
    by (simp add: length_shuffledPairs CARD_COUNT_def)
  have 1: "dataset_pokemon (cards (fetchAndAssignPokemon tbl net rnd s) ! i) =
           (if i < 2 * length ?l then Some (shuffledPairs rnd ?l ! i)
            else dataset_pokemon (cards s ! i))"
    using assms
    by (simp add: fetchAndAssignPokemon_def fetchMultipleRandomPokemon_eq nth_assign_cards m
        assignPokemonToCard_def)
  have 2: "visibility_of (cards (handleCardClick (Some i) s) ! i) = Revealed
            \<and> firstSelectedCard (handleCardClick (Some i) s) = Some i"
    if "visibility_of (cards s ! i) = Hidden" "\<not> isProcessingPair s" "firstSelectedCard s = None"
    using that assms
    by (simp add: handleCardClick_def closest_card_def update_card_def Let_def visibility_simps)
  have 3: "matchedPairs (handleCardClick (Some i) s) = matchedPairs s
            \<and> map matched (cards (handleCardClick (Some i) s)) = map matched (cards s)
            \<and> firstSelectedCard (handleCardClick (Some i) s) = None
            \<and> secondSelectedCard (handleCardClick (Some i) s) = None
            \<and> \<not> isProcessingPair (handleCardClick (Some i) s)"
    if "firstSelectedCard s = Some a" "a \<noteq> i" "visibility_of (cards s ! i) = Hidden"
       "\<not> isProcessingPair s"
       "dataset_pokemon (cards s ! a) = None \<or> dataset_pokemon (cards s ! i) = None"
    using that assms
    by (auto simp add: handleCardClick_def closest_card_def update_card_def Let_def
        visibility_simps checkForMatch_def resetSelection_def map_update list_update_same_conv
        split: option.splits)
  from 1 2 3 show ?thesis by blast
qed

theorem unbound_slot_compared_witness:
  "length (cards sample_session) = CARD_COUNT \<and> (10::nat) < CARD_COUNT
   \<and> dataset_pokemon (cards sample_session ! 10) = None
   \<and> visibility_of (cards sample_session ! 10) = Hidden
   \<and> \<not> isProcessingPair sample_session \<and> firstSelectedCard sample_session = None
   \<and> visibility_of (cards sample_unbound_pick ! 10) = Revealed
   \<and> firstSelectedCard sample_unbound_pick = Some 10
   \<and> length (cards sample_unbound_pick) = CARD_COUNT \<and> (0::nat) < CARD_COUNT
   \<and> visibility_of (cards sample_unbound_pick ! 0) = Hidden
   \<and> \<not> isProcessingPair sample_unbound_pick
   \<and> dataset_pokemon (cards sample_unbound_pick ! 10) = None
   \<and> matchedPairs (handleCardClick (Some 0) sample_unbound_pick) = matchedPairs sample_unbound_pick
   \<and> firstSelectedCard (handleCardClick (Some 0) sample_unbound_pick) = None
   \<and> secondSelectedCard (handleCardClick (Some 0) sample_unbound_pick) = None
   \<and> \<not> isProcessingPair (handleCardClick (Some 0) sample_unbound_pick)
   \<and> dataset_pokemon (cards (fetchAndAssignPokemon unicode_latin1 failing_net (\<lambda>i. random_zero) sample_session) ! 10)
       = dataset_pokemon (cards sample_session ! 10)"
proof -
  have h: "length (cards sample_session) = CARD_COUNT" "(10::nat) < CARD_COUNT"
    "dataset_pokemon (cards sample_session ! 10) = None"
    "visibility_of (cards sample_session ! 10) = Hidden"
    "\<not> isProcessingPair sample_session" "firstSelectedCard sample_session = None"
    by code_simp+
  have k: "length (cards sample_unbound_pick) = CARD_COUNT" "(0::nat) < CARD_COUNT"
    "firstSelectedCard sample_unbound_pick = Some 10"
    "visibility_of (cards sample_unbound_pick ! 0) = Hidden"
    "\<not> isProcessingPair sample_unbound_pick"
    "dataset_pokemon (cards sample_unbound_pick ! 10) = None"
    by code_simp+
  note u = unbound_slot_compared [OF h(1) h(2), of unicode_latin1 failing_net "\<lambda>i. random_zero" 0]
  note c = unbound_slot_compared [OF k(1) k(2), of unicode_latin1 failing_net "\<lambda>i. random_zero" 10]
  have z: "length (successful_fetches unicode_latin1 6 failing_net) = 0"
    by (simp add: successful_fetches_failing_net)
  from u h z have 1: "visibility_of (cards sample_unbound_pick ! 10) = Revealed"
    "dataset_pokemon (cards (fetchAndAssignPokemon unicode_latin1 failing_net (\<lambda>i. random_zero) sample_session) ! 10)
       = dataset_pokemon (cards sample_session ! 10)"
    unfolding sample_unbound_pick_def by simp_all
  from c k have 2: "matchedPairs (handleCardClick (Some 0) sample_unbound_pick) = matchedPairs sample_unbound_pick
   \<and> firstSelectedCard (handleCardClick (Some 0) sample_unbound_pick) = None
   \<and> secondSelectedCard (handleCardClick (Some 0) sample_unbound_pick) = None
   \<and> \<not> isProcessingPair (handleCardClick (Some 0) sample_unbound_pick)"
    by simp
  from h k 1 2 show ?thesis by simp
qed

text \<open>
  C1 at the failing input: every one of the six requests of the deal fails. The batch
  is the empty list, no error container is shown, and \<open>initApp\<close> goes on to attach the
  click listener, hide the spinner and show the grid, whose twelve slots are unbound.
\<close>

theorem empty_batch_presents_board:
  "fetchMultipleRandomPokemon unicode_latin1 6 failing_net = Inr []
   \<and> errorContainers (initApp unicode_latin1 failing_net (\<lambda>i. random_zero) (page_loaded False True)) = 0
   \<and> listening (initApp unicode_latin1 failing_net (\<lambda>i. random_zero) (page_loaded False True))
   \<and> \<not> gridHidden (initApp unicode_latin1 failing_net (\<lambda>i. random_zero) (page_loaded False True))
   \<and> spinnerHidden (initApp unicode_latin1 failing_net (\<lambda>i. random_zero) (page_loaded False True))
   \<and> map dataset_pokemon (cards (initApp unicode_latin1 failing_net (\<lambda>i. random_zero) (page_loaded False True)))
       = replicate 12 None"
  by (simp add: fetchMultipleRandomPokemon_eq successful_fetches_failing_net initApp_def Let_def
      fetchAndAssignPokemon_def shuffledPairs_def pokemonPairs_def shuffleArray_def assign_cards_def
      createCardElements_def createCardElement_def page_loaded_def CARD_COUNT_def comp_def
      map_replicate_const)

section \<open>The invariant and the counter\<close>

lemma filter_update_same:
  "i < length cs \<Longrightarrow> matched x = matched (cs ! i)
   \<Longrightarrow> length (filter matched (cs[i := x])) = length (filter matched cs)"
proof (induction cs arbitrary: i)
  case Nil
  then show ?case by simp
next
  case (Cons c cs)
  then show ?case by (cases i) auto
qed

lemma filter_update_new:
  "i < length cs \<Longrightarrow> \<not> matched (cs ! i) \<Longrightarrow> matched x
   \<Longrightarrow> length (filter matched (cs[i := x])) = Suc (length (filter matched cs))"
proof (induction cs arbitrary: i)
  case Nil
  then show ?case by simp
next
  case (Cons c cs)
  then show ?case by (cases i) auto
qed

lemma two_unmatched:
  assumes "a < length cs" "b < length cs" "a \<noteq> b" "\<not> matched (cs ! a)" "\<not> matched (cs ! b)"
  shows "length (filter matched cs) + 2 \<le> length cs"
proof -
  let ?m = "\<lambda>c. c\<lparr>matched := True\<rparr>"
  let ?cs1 = "cs[a := ?m (cs ! a)]"
  let ?cs2 = "?cs1[b := ?m (?cs1 ! b)]"
  have 1: "length (filter matched ?cs1) = Suc (length (filter matched cs))"
    using assms by (intro filter_update_new) auto
  have "length (filter matched ?cs2) = Suc (length (filter matched ?cs1))"
    using assms by (intro filter_update_new) auto
  with 1 have "length (filter matched ?cs2) = length (filter matched cs) + 2" by simp
  moreover have "length (filter matched ?cs2) \<le> length ?cs2" by (rule length_filter_le)
  ultimately show ?thesis by simp
qed

lemma inv_bound: "session_inv s \<Longrightarrow> matchedPairs s \<le> TOTAL_PAIRS"
proof -
  assume i: "session_inv s"
  have "length (filter matched (cards s)) \<le> length (cards s)" by (rule length_filter_le)
  with i show ?thesis by (simp add: session_inv_def CARD_COUNT_def TOTAL_PAIRS_def)
qed

lemma full_board:
  assumes "length cs = CARD_COUNT" "2 * TOTAL_PAIRS = length (filter matched cs)"
    "a < CARD_COUNT" "\<not> matched (cs ! a)"
  shows False
proof -
  have "cs ! a \<in> set cs" using assms by simp
  then have "length (filter matched cs) < length cs"
    using assms(4) by (rule length_filter_less)
  with assms show False by (simp add: CARD_COUNT_def TOTAL_PAIRS_def)
qed

lemma inv_click: "session_inv s \<Longrightarrow> session_inv (handleCardClick t s)"
  by (auto simp add: session_inv_def handleCardClick_def closest_card_def update_card_def
      checkForMatch_def handleMatch_def handleNonMatch_def resetSelection_def Let_def
      filter_update_same filter_update_new nth_list_update
      split: option.splits dest: full_board)

lemma inv_flip_back:
  "session_inv s \<Longrightarrow> 0 < mismatchTimers s
   \<Longrightarrow> session_inv (flip_back (s\<lparr>mismatchTimers := mismatchTimers s - 1\<rparr>))"
  by (auto simp add: session_inv_def flip_back_def update_card_def resetSelection_def Let_def
      filter_update_same nth_list_update split: option.splits if_splits)

lemma inv_showGameComplete:
  "session_inv s \<Longrightarrow> 0 < completeTimers s
   \<Longrightarrow> session_inv (showGameComplete (s\<lparr>completeTimers := completeTimers s - 1\<rparr>))"
  by (auto simp add: session_inv_def showGameComplete_def split: if_splits)

lemma filter_none_matched: "filter matched (map (\<lambda>c. c\<lparr>matched := False\<rparr>) cs) = []"
  by (induction cs) auto

lemma filter_unflip: "filter matched (map (\<lambda>c. c\<lparr>flipped := False\<rparr>) cs) =
    map (\<lambda>c. c\<lparr>flipped := False\<rparr>) (filter matched cs)"
  by (induction cs) auto

lemma inv_play_again:
  "session_inv s \<Longrightarrow> 0 < completionMessages s \<Longrightarrow> session_inv (play_again s)"
proof -
  assume i: "session_inv s" and m: "0 < completionMessages s"
  then have mp: "matchedPairs s = TOTAL_PAIRS" by (simp add: session_inv_def)
  have nl: "\<not> isProcessingPair s"
  proof
    assume "isProcessingPair s"
    with i obtain b where "b < CARD_COUNT" "\<not> matched (cards s ! b)"
      by (auto simp add: session_inv_def)
    with i mp show False by (auto simp add: session_inv_def dest: full_board)
  qed
  with i m show ?thesis
    by (auto simp add: session_inv_def play_again_def resetGame_def Let_def
        filter_none_matched filter_unflip)
qed

lemma length_assign_cards: "length (assign_cards sh cs) = length cs"
proof -
  have "length (fold (\<lambda>i cs. if i < length cs then cs[i := assignPokemonToCard (cs ! i) (sh ! i)] else cs) ks cs) = length cs" for ks
    by (induction ks arbitrary: cs) auto
  then show ?thesis by (simp add: assign_cards_def)
qed

lemma map_matched_assign_cards: "map matched (assign_cards sh cs) = map matched cs"
proof -
  have "map matched (fold (\<lambda>i cs. if i < length cs then cs[i := assignPokemonToCard (cs ! i) (sh ! i)] else cs) ks cs) = map matched cs" for ks
    by (induction ks arbitrary: cs) (auto simp add: map_update assignPokemonToCard_def list_update_same_conv)
  then show ?thesis by (simp add: assign_cards_def)
qed

lemma filter_matched_cong:
  fixes xs ys :: "card list"
  assumes "map matched xs = map matched ys"
  shows "length (filter matched xs) = length (filter matched ys)"
proof -
  have h: "length (filter matched zs) = length (filter (\<lambda>b. b) (map matched zs))"
    for zs :: "card list"
    by (induction zs) auto
  have "length (filter matched xs) = length (filter (\<lambda>b. b) (map matched xs))"
    by (rule h)
  also have "\<dots> = length (filter (\<lambda>b. b) (map matched ys))"
    using assms by simp
  also have "\<dots> = length (filter matched ys)"
    by (rule h [symmetric])
  finally show ?thesis .
qed

lemma nth_matched_cong:
  fixes xs ys :: "card list"
  assumes "map matched xs = map matched ys" "a < length ys"
  shows "matched (xs ! a) = matched (ys ! a)"
proof -
  have "length xs = length ys" using assms(1) by (rule map_eq_imp_length_eq)
  with assms(2) have "map matched xs ! a = matched (xs ! a)" "map matched ys ! a = matched (ys ! a)"
    by simp_all
  with assms(1) show ?thesis by simp
qed

lemma inv_fetchAndAssignPokemon:
  assumes "session_inv s"
  shows "session_inv (fetchAndAssignPokemon tbl net rnd s)"
proof -
  let ?cs = "assign_cards (shuffledPairs rnd (successful_fetches tbl 6 net)) (cards s)"
  have e: "fetchAndAssignPokemon tbl net rnd s = s\<lparr>cards := ?cs\<rparr>"
    by (simp add: fetchAndAssignPokemon_def fetchMultipleRandomPokemon_eq)
  have l: "length ?cs = length (cards s)" by (rule length_assign_cards)
  have m: "map matched ?cs = map matched (cards s)" by (rule map_matched_assign_cards)
  have f: "length (filter matched ?cs) = length (filter matched (cards s))"
    using m by (rule filter_matched_cong)
  have n: "matched (?cs ! a) = matched (cards s ! a)" if "a < length (cards s)" for a
    using m that by (rule nth_matched_cong)
  from assms show ?thesis
    unfolding e by (auto simp add: session_inv_def l f n)
qed

lemma inv_deal:
  "session_inv s \<Longrightarrow> session_inv (fetchAndAssignPokemon tbl net rnd (s\<lparr>pendingDeals := pendingDeals s - 1\<rparr>))"
  by (rule inv_fetchAndAssignPokemon) (simp add: session_inv_def)

lemma inv_step:
  assumes "session_inv s" and "enabled e s"
  shows "session_inv (step tbl e s)"
proof (cases e)
  case (Click t)
  with assms show ?thesis by (simp add: inv_click)
next
  case MismatchTimeout
  with assms inv_flip_back [of s] show ?thesis by simp
next
  case CompleteTimeout
  with assms inv_showGameComplete [of s] show ?thesis by simp
next
  case PlayAgain
  with assms show ?thesis by (simp add: inv_play_again)
next
  case (DealArrives net rnd)
  with assms inv_deal [of s tbl net rnd] show ?thesis by simp
qed

lemma inv_initApp: "session_inv (initApp tbl net rnd (page_loaded sp gr))"
proof -
  let ?s3 = "createCardElements (page_loaded sp gr\<lparr>spinnerHidden := False, gridHidden := True\<rparr>)"
  have "filter matched (map createCardElement ks) = []" for ks
    by (induction ks) (auto simp add: createCardElement_def)
  then have "session_inv (?s3\<lparr>listening := True\<rparr>)"
    by (simp add: session_inv_def createCardElements_def page_loaded_def)
  then have "session_inv (fetchAndAssignPokemon tbl net rnd (?s3\<lparr>listening := True\<rparr>))"
    by (rule inv_fetchAndAssignPokemon)
  moreover have "initApp tbl net rnd (page_loaded sp gr) =
     (fetchAndAssignPokemon tbl net rnd (?s3\<lparr>listening := True\<rparr>))\<lparr>spinnerHidden := True, gridHidden := False\<rparr>"
    by (simp add: initApp_def Let_def fetchAndAssignPokemon_def fetchMultipleRandomPokemon_eq createCardElements_def)
  ultimately show ?thesis by (simp add: session_inv_def)
qed

lemma reachable_inv: "reachable tbl s \<Longrightarrow> session_inv s"
  by (induction rule: reachable.induct) (simp_all add: inv_initApp inv_step)

lemma reachable_no_error: "reachable tbl s \<Longrightarrow> errorContainers s = 0"
  by (drule reachable_inv) (simp add: session_inv_def)

lemma counter_click:
  "session_inv s \<Longrightarrow>
     matchedPairs s \<le> matchedPairs (handleCardClick t s)
   \<and> matchedPairs (handleCardClick t s) \<le> matchedPairs s + 1
   \<and> (completeTimers (handleCardClick t s) = completeTimers s + 1 \<longleftrightarrow>
        matchedPairs s < TOTAL_PAIRS \<and> matchedPairs (handleCardClick t s) = TOTAL_PAIRS)
   \<and> completeTimers s \<le> completeTimers (handleCardClick t s)"
  by (auto simp add: session_inv_def handleCardClick_def closest_card_def update_card_def
      checkForMatch_def handleMatch_def handleNonMatch_def resetSelection_def Let_def
      split: option.splits)

lemma counter_flip_back: "matchedPairs (flip_back s) = matchedPairs s"
  "completeTimers (flip_back s) = completeTimers s"
  by (simp_all add: flip_back_def update_card_def resetSelection_def Let_def split: option.splits)

lemma counter_deal: "matchedPairs (fetchAndAssignPokemon tbl net rnd s) = matchedPairs s"
  "completeTimers (fetchAndAssignPokemon tbl net rnd s) = completeTimers s"
  by (simp_all add: fetchAndAssignPokemon_def fetchMultipleRandomPokemon_eq)

text \<open>
  C4: in every reachable state the counter is at most \<open>TOTAL_PAIRS\<close>. Every event but the
  reset leaves it or adds one to it; the reset (the button of the completion message)
  sets it to 0. The completion is triggered (its timer set) by exactly the events that
  take the counter from below \<open>TOTAL_PAIRS\<close> to \<open>TOTAL_PAIRS\<close>, and from there the counter
  stays until the reset, so this happens once in a deal; the completion is pending or
  shown at most once at a time, and only with the counter at \<open>TOTAL_PAIRS\<close>.
\<close>

theorem matchedPairs_counter:
  assumes "reachable tbl s" and "enabled e s"
  shows "matchedPairs s \<le> TOTAL_PAIRS
       \<and> (e \<noteq> PlayAgain \<longrightarrow> matchedPairs s \<le> matchedPairs (step tbl e s)
                              \<and> matchedPairs (step tbl e s) \<le> matchedPairs s + 1)
       \<and> (e = PlayAgain \<longrightarrow> matchedPairs (step tbl e s) = 0)
       \<and> (completeTimers (step tbl e s) = completeTimers s + 1 \<longleftrightarrow>
            matchedPairs s < TOTAL_PAIRS \<and> matchedPairs (step tbl e s) = TOTAL_PAIRS)
       \<and> (matchedPairs s = TOTAL_PAIRS \<and> e \<noteq> PlayAgain \<longrightarrow> matchedPairs (step tbl e s) = TOTAL_PAIRS)
       \<and> completeTimers s + completionMessages s \<le> 1
       \<and> (0 < completeTimers s + completionMessages s \<longrightarrow> matchedPairs s = TOTAL_PAIRS)"
proof -
  have i: "session_inv s" using assms(1) by (rule reachable_inv)
  have i': "session_inv (step tbl e s)" using i assms(2) by (rule inv_step)
  have b: "matchedPairs s \<le> TOTAL_PAIRS" using i by (rule inv_bound)
  have b': "matchedPairs (step tbl e s) \<le> TOTAL_PAIRS" using i' by (rule inv_bound)
  have t: "completeTimers s + completionMessages s \<le> 1"
    "0 < completeTimers s + completionMessages s \<longrightarrow> matchedPairs s = TOTAL_PAIRS"
    using i by (simp_all add: session_inv_def)
  have c: "(e \<noteq> PlayAgain \<longrightarrow> matchedPairs s \<le> matchedPairs (step tbl e s)
                              \<and> matchedPairs (step tbl e s) \<le> matchedPairs s + 1)
       \<and> (e = PlayAgain \<longrightarrow> matchedPairs (step tbl e s) = 0)
       \<and> (completeTimers (step tbl e s) = completeTimers s + 1 \<longleftrightarrow>
            matchedPairs s < TOTAL_PAIRS \<and> matchedPairs (step tbl e s) = TOTAL_PAIRS)"
  proof (cases e)
    case (Click t)
    with counter_click [OF i, of t] show ?thesis by simp
  next
    case MismatchTimeout
    then show ?thesis by (simp add: counter_flip_back)
  next
    case CompleteTimeout
    with assms(2) t show ?thesis by (auto simp add: showGameComplete_def)
  next
    case PlayAgain
    then show ?thesis by (simp add: play_again_def resetGame_def Let_def TOTAL_PAIRS_def)
  next
    case (DealArrives net rnd)
    then show ?thesis by (simp add: counter_deal)
  qed
  from b b' c t show ?thesis by auto
qed

lemma reachable_listening: "reachable tbl s \<Longrightarrow> enabled (Click t) s"
  by (drule reachable_inv) (simp add: session_inv_def)

lemma reachable_picks: "reachable unicode_latin1 s \<Longrightarrow> reachable unicode_latin1 (picks ts s)"
proof (induction ts arbitrary: s)
  case Nil
  then show ?case by (simp add: picks_def)
next
  case (Cons t ts)
  from Cons.prems have "reachable unicode_latin1 (step unicode_latin1 (Click (Some t)) s)"
    by (rule reachable.next_state) (rule reachable_listening [OF Cons.prems])
  from Cons.IH [OF this] show ?case by (simp add: picks_def)
qed

lemma reachable_eleven_picks: "reachable unicode_latin1 eleven_picks"
  unfolding eleven_picks_def full_session_def
  by (rule reachable_picks) (rule reachable.start)

lemma reachable_completed_session: "reachable unicode_latin1 completed_session \<and> enabled PlayAgain completed_session"
proof -
  let ?s = "step unicode_latin1 (Click (Some 10)) eleven_picks"
  have 1: "reachable unicode_latin1 ?s"
    using reachable_eleven_picks reachable_listening [OF reachable_eleven_picks]
    by (rule reachable.next_state)
  have "enabled CompleteTimeout ?s" by code_simp
  with 1 have "reachable unicode_latin1 (step unicode_latin1 CompleteTimeout ?s)"
    by (rule reachable.next_state)
  moreover have "enabled PlayAgain completed_session" by code_simp
  ultimately show ?thesis by (simp add: completed_session_def)
qed

theorem matchedPairs_counter_witness:
  "reachable unicode_latin1 eleven_picks
   \<and> enabled (Click (Some 10)) eleven_picks
   \<and> matchedPairs eleven_picks = 5
   \<and> matchedPairs (step unicode_latin1 (Click (Some 10)) eleven_picks) = TOTAL_PAIRS
   \<and> completeTimers (step unicode_latin1 (Click (Some 10)) eleven_picks) = completeTimers eleven_picks + 1
   \<and> reachable unicode_latin1 completed_session
   \<and> enabled PlayAgain completed_session
   \<and> matchedPairs completed_session = TOTAL_PAIRS
   \<and> completeTimers completed_session + completionMessages completed_session \<le> 1
   \<and> matchedPairs (step unicode_latin1 PlayAgain completed_session) = 0"
proof -
  have e: "enabled (Click (Some 10)) eleven_picks"
    by (rule reachable_listening [OF reachable_eleven_picks])
  have v: "matchedPairs eleven_picks = 5"
    "matchedPairs (step unicode_latin1 (Click (Some 10)) eleven_picks) = TOTAL_PAIRS"
    "0 < completionMessages completed_session"
    by code_simp+
  note a = matchedPairs_counter [OF reachable_eleven_picks e]
  note b = matchedPairs_counter [OF reachable_completed_session [THEN conjunct1]
      reachable_completed_session [THEN conjunct2]]
  from a v have "completeTimers (step unicode_latin1 (Click (Some 10)) eleven_picks) = completeTimers eleven_picks + 1"
    by (simp add: TOTAL_PAIRS_def)
  moreover from b v have "matchedPairs completed_session = TOTAL_PAIRS"
    "completeTimers completed_session + completionMessages completed_session \<le> 1"
    "matchedPairs (step unicode_latin1 PlayAgain completed_session) = 0"
    by simp_all
  ultimately show ?thesis
    using e v reachable_eleven_picks reachable_completed_session by simp
qed

end
